theory Spec2Isabelle
  imports Main "HOL-Library.Sublist" "HOL-Library.Multiset"
begin

section \<open>Data model\<close>

text \<open>
  A redirection record is the object \<^verbatim>\<open>{ id, from, to }\<close> the provider returns and
  \<^verbatim>\<open>cache.json\<close> stores. The identifier is a JavaScript string or an integer number;
  \<^verbatim>\<open>Array.prototype.includes\<close> compares identifiers with SameValueZero, under which
  a number never equals a string, as the two constructors below never do.
\<close>

datatype ident = IdNum int | IdStr string

record redirection =
  r_id :: ident
  r_from :: string
  r_to :: string

text \<open>The value of \<^verbatim>\<open>cache[domain]\<close>: an object with the one field \<^verbatim>\<open>redirections\<close>.\<close>

record domain_cache =
  redirections :: "redirection list"

text \<open>
  \<^verbatim>\<open>cache\<close> is a JavaScript object keyed by domain name, the parsed content of
  \<^verbatim>\<open>cache.json\<close>: a finite map from domain names to entries.
\<close>

type_synonym cache = "string \<rightharpoonup> domain_cache"

datatype error =
  TypeError string
| ApiError string
| InvalidArgument string

section \<open>Cache initialisation and lookup by address\<close>

text \<open>
  \<^verbatim>\<open>let cache = {}; try { cache = JSON.parse(await fs.readFile(...)) } catch ...\<close>
  followed by \<^verbatim>\<open>if (!cache[domain]) cache[domain] = { redirections: [] }\<close>.
  The argument is the outcome of reading and parsing the file.
\<close>

definition load_cache :: "string \<Rightarrow> error + cache \<Rightarrow> cache" where
  "load_cache domain parsed_file =
     (let loaded = (case parsed_file of Inl err \<Rightarrow> Map.empty | Inr parsed \<Rightarrow> parsed)
      in if loaded domain = None
         then loaded(domain \<mapsto> \<lparr>redirections = []\<rparr>)
         else loaded)"

text \<open>
  The result of \<^verbatim>\<open>find(...) || {}\<close>: the record found, or the empty object. Reading
  \<^verbatim>\<open>.id\<close> of the empty object gives \<^verbatim>\<open>undefined\<close>, here \<open>None\<close>.
\<close>

datatype lookup = Found redirection | EmptyObject

fun lookup_id :: "lookup \<Rightarrow> ident option" where
  "lookup_id (Found r) = Some (r_id r)"
| "lookup_id EmptyObject = None"

definition from_matches :: "string \<Rightarrow> string \<Rightarrow> redirection \<Rightarrow> bool" where
  "from_matches domain str r \<longleftrightarrow> r_from r \<in> set [str, str @ ''@'' @ domain]"

text \<open>
  \<^verbatim>\<open>const redirByFrom = str => cache[domain].redirections.find(({ from }) =>
    [str, `${str}@${domain}`].includes(from)) || {};\<close>
  Reading \<^verbatim>\<open>.redirections\<close> of a missing \<^verbatim>\<open>cache[domain]\<close> throws a TypeError.
\<close>

definition redirByFrom :: "string \<Rightarrow> cache \<Rightarrow> string \<Rightarrow> error + lookup" where
  "redirByFrom domain snapshot str =
     (case snapshot domain of
        None \<Rightarrow> Inl (TypeError ''Cannot read properties of undefined'')
      | Some entry \<Rightarrow>
          Inr (case find (from_matches domain str) (redirections entry) of
                 None \<Rightarrow> EmptyObject
               | Some r \<Rightarrow> Found r))"

section \<open>Strings and numbers of the runtime\<close>

text \<open>
  \<^verbatim>\<open>String(n)\<close> and the template literal \<^verbatim>\<open>`${n}`\<close> print an integer in decimal.
\<close>

definition digit :: "nat \<Rightarrow> char" where
  "digit d = ''0123456789'' ! d"

function decimal :: "nat \<Rightarrow> string" where
  "decimal n = (if 10 \<le> n then decimal (n div 10) @ [digit (n mod 10)] else [digit n])"
  by pat_completeness auto
termination
  by (relation "measure id") auto

declare decimal.simps [simp del]

definition number_text :: "int \<Rightarrow> string" where
  "number_text i = (if 0 \<le> i then decimal (nat i) else CHR ''-'' # decimal (nat (- i)))"

fun js_String :: "ident \<Rightarrow> string" where
  "js_String (IdNum n) = number_text n"
| "js_String (IdStr s) = s"

text \<open>A template literal over a value that may be \<^verbatim>\<open>undefined\<close>.\<close>

fun template_value :: "ident option \<Rightarrow> string" where
  "template_value None = ''undefined''"
| "template_value (Some i) = js_String i"

section \<open>Sorting with a comparator\<close>

text \<open>
  \<^verbatim>\<open>Array.prototype.sort\<close> is stable. For a consistent comparator (a total preorder,
  which the language requires of the comparator for the result to be defined) the stable
  sorted arrangement of an array is unique, so the sort is modelled by stable insertion:
  elements are inserted from the last to the first, each before the first element it
  does not follow.
\<close>

fun insert_by :: "('a \<Rightarrow> 'a \<Rightarrow> int) \<Rightarrow> 'a \<Rightarrow> 'a list \<Rightarrow> 'a list" where
  "insert_by c x [] = [x]"
| "insert_by c x (y # ys) = (if c x y \<le> 0 then x # y # ys else y # insert_by c x ys)"

definition js_sort :: "('a \<Rightarrow> 'a \<Rightarrow> int) \<Rightarrow> 'a list \<Rightarrow> 'a list" where
  "js_sort c xs = foldr (insert_by c) xs []"

text \<open>
  The contract of a comparison function such as \<^verbatim>\<open>String.prototype.localeCompare\<close>:
  any two strings are comparable and the order is transitive.
\<close>

definition consistent :: "('a \<Rightarrow> 'a \<Rightarrow> int) \<Rightarrow> bool" where
  "consistent c \<longleftrightarrow>
     (\<forall>a b. c a b \<le> 0 \<or> c b a \<le> 0) \<and>
     (\<forall>a b d. c a b \<le> 0 \<longrightarrow> c b d \<le> 0 \<longrightarrow> c a d \<le> 0)"

text \<open>
  \<^verbatim>\<open>localeCompare\<close> belongs to the runtime, not to the program, and the functions
  below take it as a parameter. \<open>collate\<close> is the instance used for concrete runs: the
  default collation on letters, which compares the letters regardless of case first and
  lets case decide only between strings that are otherwise equal, lower case first
  (\<^verbatim>\<open>'a'.localeCompare('B')\<close> is negative, \<^verbatim>\<open>'a'.localeCompare('A')\<close> is negative).
\<close>

definition is_upper :: "char \<Rightarrow> bool" where
  "is_upper ch \<longleftrightarrow> (65::nat) \<le> of_char ch \<and> of_char ch \<le> (90::nat)"

definition base_weight :: "char \<Rightarrow> nat" where
  "base_weight ch = (if is_upper ch then of_char ch + 32 else of_char ch)"

definition case_weight :: "char \<Rightarrow> nat" where
  "case_weight ch = (if is_upper ch then 1 else 0)"

fun compare_weights :: "nat list \<Rightarrow> nat list \<Rightarrow> int" where
  "compare_weights [] [] = 0"
| "compare_weights [] (y # ys) = - 1"
| "compare_weights (x # xs) [] = 1"
| "compare_weights (x # xs) (y # ys) =
     (if x < y then - 1 else if y < x then 1 else compare_weights xs ys)"

definition collate :: "string \<Rightarrow> string \<Rightarrow> int" where
  "collate a b =
     (let primary = compare_weights (map base_weight a) (map base_weight b)
      in if primary \<noteq> 0 then primary
         else compare_weights (map case_weight a) (map case_weight b))"

text \<open>
  Ordinal comparison of strings, code unit by code unit: the order the specification
  names for the persisted sequence.
\<close>

fun ordinal_le :: "string \<Rightarrow> string \<Rightarrow> bool" where
  "ordinal_le [] b = True"
| "ordinal_le (x # xs) [] = False"
| "ordinal_le (x # xs) (y # ys) =
     ((of_char x :: nat) < of_char y \<or> (x = y \<and> ordinal_le xs ys))"

section \<open>The remote client and the process state\<close>

datatype meth = GET | POST | DELETE

text \<open>What the provider answers on the redirection endpoints.\<close>

datatype response = IdList "ident list" | Details redirection | Ack

text \<open>
  \<^verbatim>\<open>ovh.request(method, path, callback)\<close>: the provider, in state \<open>'w\<close>, answers with
  an error or a response and moves to a new state.
\<close>

type_synonym 'w client = "'w \<Rightarrow> meth \<Rightarrow> string \<Rightarrow> (error + response) \<times> 'w"

datatype event =
  Request meth string
| ConsoleLog string
| ConsoleError string
| WriteFile

text \<open>
  The module-level state: the provider, the in-memory \<^verbatim>\<open>cache\<close>, the content of
  \<^verbatim>\<open>cache.json\<close> (\<open>None\<close> while the file does not exist), whether the file can be
  written, and what the process has done so far. The cache is of type \<open>'c\<close>: the
  mapping from domains to entries in the versions of the script that key the file by
  domain, a single entry in the first version.
\<close>

record ('w, 'c) state =
  world :: 'w
  cache :: 'c
  disk :: "'c option"
  writable :: bool
  trace :: "event list"

definition message :: "error \<Rightarrow> string" where
  "message e = (case e of TypeError m \<Rightarrow> m | ApiError m \<Rightarrow> m | InvalidArgument m \<Rightarrow> m)"

definition emit :: "event \<Rightarrow> ('w, 'c) state \<Rightarrow> ('w, 'c) state" where
  "emit ev st = st\<lparr>trace := trace st @ [ev]\<rparr>"

definition ovhRequest ::
  "'w client \<Rightarrow> meth \<Rightarrow> string \<Rightarrow> ('w, 'c) state \<Rightarrow> (error + response) \<times> ('w, 'c) state" where
  "ovhRequest ovh m path st =
     (case ovh (world st) m path of
        (answer, w') \<Rightarrow> (answer, emit (Request m path) (st\<lparr>world := w'\<rparr>)))"

definition redirection_path :: "string \<Rightarrow> string" where
  "redirection_path domain = ''/email/domain/'' @ domain @ ''/redirection''"

definition redirection_id_path :: "string \<Rightarrow> string \<Rightarrow> string" where
  "redirection_id_path domain idtext = ''/email/domain/'' @ domain @ ''/redirection/'' @ idtext"

section \<open>Reconciliation\<close>

text \<open>
  The loop \<^verbatim>\<open>for await (const redirectionId of newRedirIds)\<close>: one detail request per
  new identifier, in order; a rejected request throws out of \<open>updateRedirections\<close>. The
  model reads a redirection object from the answer; an answer of another shape has no
  \<^verbatim>\<open>from\<close> to sort by and is reported as a TypeError.
\<close>

fun fetch_details ::
  "'w client \<Rightarrow> string \<Rightarrow> ident list \<Rightarrow> redirection list \<Rightarrow> ('w, 'c) state
     \<Rightarrow> (error + redirection list) \<times> ('w, 'c) state" where
  "fetch_details ovh domain [] newRedirections st = (Inr newRedirections, st)"
| "fetch_details ovh domain (redirectionId # rest) newRedirections st =
     (case ovhRequest ovh GET (redirection_id_path domain (js_String redirectionId)) st of
        (Inl err, st') \<Rightarrow> (Inl err, st')
      | (Inr (Details details), st') \<Rightarrow>
          fetch_details ovh domain rest (newRedirections @ [details]) st'
      | (Inr other, st') \<Rightarrow> (Inl (TypeError ''a.localeCompare is not a function''), st'))"

text \<open>\<^verbatim>\<open>fs.writeFile(`${basePath}/cache.json`, JSON.stringify(cache, null, 2))\<close>.\<close>

definition writeFile :: "('w, 'c) state \<Rightarrow> (error + unit) \<times> ('w, 'c) state" where
  "writeFile st =
     (if writable st
      then (Inr (), emit WriteFile (st\<lparr>disk := Some (cache st)\<rparr>))
      else (Inl (ApiError ''EACCES: permission denied''), st))"

definition updateRedirections ::
  "(string \<Rightarrow> string \<Rightarrow> int) \<Rightarrow> 'w client \<Rightarrow> string \<Rightarrow> ('w, cache) state
     \<Rightarrow> (error + unit) \<times> ('w, cache) state" where
  "updateRedirections localeCompare ovh domain st0 =
     (case ovhRequest ovh GET (redirection_path domain) st0 of
        (Inl err, st1) \<Rightarrow> (Inl err, st1)
      | (Inr answer, st1) \<Rightarrow>
     (case cache st1 domain of
        None \<Rightarrow> (Inl (TypeError ''Cannot read properties of undefined''), st1)
      | Some entry \<Rightarrow>
     (case answer of
        IdList allRedirIds \<Rightarrow>
          (let existingRedirIds = map r_id (redirections entry);
               newRedirIds = filter (\<lambda>rId. rId \<notin> set existingRedirIds) allRedirIds
           in case fetch_details ovh domain newRedirIds [] st1 of
                (Inl err, st2) \<Rightarrow> (Inl err, st2)
              | (Inr newRedirections, st2) \<Rightarrow>
                  (let deletedRedirIds = filter (\<lambda>i. i \<notin> set allRedirIds) existingRedirIds;
                       merged = js_sort (\<lambda>x y. localeCompare (r_from x) (r_from y))
                                  (filter (\<lambda>r. r_id r \<notin> set deletedRedirIds) (redirections entry)
                                   @ newRedirections);
                       st3 = st2\<lparr>cache := (cache st2)(domain \<mapsto> entry\<lparr>redirections := merged\<rparr>)\<rparr>;
                       st4 = emit (ConsoleLog (decimal (length existingRedirIds)
                                     @ '' remote redirection(s)'')) st3;
                       st5 = emit (ConsoleLog (decimal (length newRedirections)
                                     @ '' new redirection(s)'')) st4;
                       st6 = emit (ConsoleLog (decimal (length deletedRedirIds)
                                     @ '' deleted redirection(s)'')) st5
                   in writeFile st6))
      | other \<Rightarrow> (Inl (TypeError ''allRedirIds.filter is not a function''), st1))))"

text \<open>
  The first version of the script (\<^verbatim>\<open>src/unnamed/part_000\<close>, lines 54 to 79) keeps
  one entry, \<^verbatim>\<open>cache.redirections\<close>, for the one configured domain. Its \<open>updateRedirections\<close> sorts the prior sequence, drops the
  deleted records from it and appends the fetched records after them:
  \<^verbatim>\<open>cache.redirections = [...cache.redirections.sort(...).filter(...), ...newRedirections]\<close>.
  It prints the new and the deleted count only.
\<close>

definition updateRedirections_first ::
  "(string \<Rightarrow> string \<Rightarrow> int) \<Rightarrow> 'w client \<Rightarrow> string \<Rightarrow> ('w, domain_cache) state
     \<Rightarrow> (error + unit) \<times> ('w, domain_cache) state" where
  "updateRedirections_first localeCompare ovh domain st0 =
     (case ovhRequest ovh GET (redirection_path domain) st0 of
        (Inl err, st1) \<Rightarrow> (Inl err, st1)
      | (Inr answer, st1) \<Rightarrow>
     (case answer of
        IdList allRedirIds \<Rightarrow>
          (let existingRedirIds = map r_id (redirections (cache st1));
               newRedirIds = filter (\<lambda>rId. rId \<notin> set existingRedirIds) allRedirIds
           in case fetch_details ovh domain newRedirIds [] st1 of
                (Inl err, st2) \<Rightarrow> (Inl err, st2)
              | (Inr newRedirections, st2) \<Rightarrow>
                  (let deletedRedirIds = filter (\<lambda>i. i \<notin> set allRedirIds) existingRedirIds;
                       merged = filter (\<lambda>r. r_id r \<notin> set deletedRedirIds)
                                  (js_sort (\<lambda>x y. localeCompare (r_from x) (r_from y))
                                     (redirections (cache st2)))
                                @ newRedirections;
                       st3 = st2\<lparr>cache := (cache st2)\<lparr>redirections := merged\<rparr>\<rparr>;
                       st4 = emit (ConsoleLog (decimal (length newRedirections)
                                     @ '' new redirection(s)'')) st3;
                       st5 = emit (ConsoleLog (decimal (length deletedRedirIds)
                                     @ '' deleted redirection(s)'')) st4
                   in writeFile st5))
      | other \<Rightarrow> (Inl (TypeError ''allRedirIds.filter is not a function''), st1)))"

text \<open>
  What a run assigns to \<^verbatim>\<open>cache[domain].redirections\<close> and what it prints and
  requests, written as functions of the prior sequence, the remote identifiers and the
  remote details; the lemmas below relate them to \<open>updateRedirections\<close>.
\<close>

definition merged_redirections ::
  "(string \<Rightarrow> string \<Rightarrow> int) \<Rightarrow> redirection list \<Rightarrow> ident list \<Rightarrow> (ident \<Rightarrow> redirection)
     \<Rightarrow> redirection list" where
  "merged_redirections localeCompare old allRedirIds details =
     js_sort (\<lambda>x y. localeCompare (r_from x) (r_from y))
       (filter (\<lambda>r. r_id r \<in> set allRedirIds) old
        @ map details (filter (\<lambda>i. i \<notin> r_id ` set old) allRedirIds))"

definition run_trace :: "string \<Rightarrow> redirection list \<Rightarrow> ident list \<Rightarrow> event list" where
  "run_trace domain old allRedirIds =
     Request GET (redirection_path domain)
     # map (\<lambda>i. Request GET (redirection_id_path domain (js_String i)))
         (filter (\<lambda>i. i \<notin> r_id ` set old) allRedirIds)
     @ [ConsoleLog (decimal (length old) @ '' remote redirection(s)''),
        ConsoleLog (decimal (length (filter (\<lambda>i. i \<notin> r_id ` set old) allRedirIds))
                      @ '' new redirection(s)''),
        ConsoleLog (decimal (length (filter (\<lambda>i. i \<notin> set allRedirIds) (map r_id old)))
                      @ '' deleted redirection(s)'')]"

section \<open>Query layer\<close>

text \<open>
  Strings are sequences of code units below 256. \<^verbatim>\<open>toLowerCase\<close> maps the capital
  letters of that range (A to Z, and the accented capitals 192 to 222 except the
  multiplication sign 215) to the code unit 32 above.
\<close>

definition lower_char :: "char \<Rightarrow> char" where
  "lower_char ch =
     (let n = (of_char ch :: nat)
      in if (65 \<le> n \<and> n \<le> 90) \<or> (192 \<le> n \<and> n \<le> 222 \<and> n \<noteq> 215)
         then char_of (n + 32) else ch)"

definition toLowerCase :: "string \<Rightarrow> string" where
  "toLowerCase s = map lower_char s"

text \<open>\<^verbatim>\<open>s.includes(q)\<close>: \<open>q\<close> occurs in \<open>s\<close> as a contiguous substring.\<close>

fun js_includes :: "string \<Rightarrow> string \<Rightarrow> bool" where
  "js_includes [] q \<longleftrightarrow> q = []"
| "js_includes (c # cs) q \<longleftrightarrow> prefix q (c # cs) \<or> js_includes cs q"

text \<open>
  The callback of \<^verbatim>\<open>redirections.filter\<close> in \<open>filterRedirections\<close> calls
  \<^verbatim>\<open>id.toLowerCase()\<close> first; a number has no such method, and the call throws a
  TypeError that ends the whole filter.
\<close>

fun filter_by_query :: "string \<Rightarrow> redirection list \<Rightarrow> error + redirection list" where
  "filter_by_query query [] = Inr []"
| "filter_by_query query (r # rs) =
     (case r_id r of
        IdNum n \<Rightarrow> Inl (TypeError ''id.toLowerCase is not a function'')
      | IdStr i \<Rightarrow>
          (case filter_by_query query rs of
             Inl err \<Rightarrow> Inl err
           | Inr kept \<Rightarrow>
               Inr (if js_includes (toLowerCase i) query
                       \<or> js_includes (toLowerCase (r_from r)) query
                       \<or> js_includes (toLowerCase (r_to r)) query
                    then r # kept else kept)))"

text \<open>An absent \<^verbatim>\<open>searchStr\<close> is \<open>None\<close>; \<^verbatim>\<open>!searchStr\<close> also holds of the empty string.\<close>

definition filterRedirections ::
  "redirection list \<Rightarrow> string option \<Rightarrow> error + redirection list" where
  "filterRedirections rs searchStr =
     (case searchStr of
        None \<Rightarrow> Inr rs
      | Some s \<Rightarrow> if s = [] then Inr rs else filter_by_query (toLowerCase s) rs)"

text \<open>\<^verbatim>\<open>String(a[col])\<close> for the three columns.\<close>

definition column_text :: "string \<Rightarrow> redirection \<Rightarrow> string" where
  "column_text col r =
     (if col = ''from'' then r_from r else if col = ''to'' then r_to r else js_String (r_id r))"

text \<open>
  \<^verbatim>\<open>const col = validColumns.includes(sortBy) ? sortBy : 'from'\<close>, after the default
  \<^verbatim>\<open>sortBy = 'from'\<close> of an absent argument.
\<close>

definition sort_column :: "string option \<Rightarrow> string" where
  "sort_column sortBy =
     (let given = (case sortBy of None \<Rightarrow> ''from'' | Some s \<Rightarrow> s)
      in if given \<in> set [''from'', ''to'', ''id''] then given else ''from'')"

definition sortRedirections ::
  "(string \<Rightarrow> string \<Rightarrow> int) \<Rightarrow> redirection list \<Rightarrow> string option \<Rightarrow> string option
     \<Rightarrow> redirection list" where
  "sortRedirections localeCompare rs sortBy order =
     (let col = sort_column sortBy;
          sorted = js_sort (\<lambda>a b. localeCompare (column_text col a) (column_text col b)) rs
      in if order = Some ''desc'' then rev sorted else sorted)"

section \<open>Masking secrets\<close>

text \<open>The variables of \<^verbatim>\<open>process.env\<close> that the script reads; \<open>None\<close> is unset.\<close>

record env =
  APP_KEY :: "string option"
  APP_SECRET :: "string option"
  CONSUMER_KEY :: "string option"
  DEFAULT_TO :: "string option"
  NODE_ENV :: "string option"

text \<open>
  \<^verbatim>\<open>str.split(secret)\<close> for a non-empty separator: the pieces between the occurrences
  of the separator, found from left to right without overlap. The code splits only by
  secrets longer than four characters.
\<close>

function split_at :: "string \<Rightarrow> string \<Rightarrow> string \<Rightarrow> string list" where
  "split_at sep piece [] = [piece]"
| "split_at sep piece (c # cs) =
     (if sep \<noteq> [] \<and> prefix sep (c # cs)
      then piece # split_at sep [] (drop (length sep) (c # cs))
      else split_at sep (piece @ [c]) cs)"
  by pat_completeness auto
termination
  by (relation "measure (\<lambda>(sep, piece, s). length s)") auto

definition js_split :: "string \<Rightarrow> string \<Rightarrow> string list" where
  "js_split str sep = split_at sep [] str"

fun join :: "string \<Rightarrow> string list \<Rightarrow> string" where
  "join glue [] = []"
| "join glue [p] = p"
| "join glue (p # q # ps) = p @ glue @ join glue (q # ps)"

text \<open>
  The argument of \<open>maskSecretsInLog\<close>: a string, or a value that is printed by
  \<^verbatim>\<open>JSON.stringify\<close>, which returns \<^verbatim>\<open>undefined\<close> (here \<open>None\<close>) for
  \<^verbatim>\<open>undefined\<close>, a function or a symbol.
\<close>

datatype 'a log_value = Text string | Value 'a

text \<open>\<^verbatim>\<open>[...].filter(Boolean)\<close>: the variables that are set and not empty.\<close>

fun set_variables :: "string option list \<Rightarrow> string list" where
  "set_variables [] = []"
| "set_variables (None # vs) = set_variables vs"
| "set_variables (Some s # vs) = (if s = [] then set_variables vs else s # set_variables vs)"

text \<open>
  The loop \<^verbatim>\<open>for (const secret of secrets)\<close>: a secret longer than four characters is
  replaced by \<^verbatim>\<open>str.split(secret).join('[REDACTED]')\<close>, which throws a TypeError when
  \<^verbatim>\<open>str\<close> is \<^verbatim>\<open>undefined\<close>; a shorter one is skipped.
\<close>

fun mask_each :: "string option \<Rightarrow> string list \<Rightarrow> error + string option" where
  "mask_each str [] = Inr str"
| "mask_each str (secret # secrets) =
     (if length secret > 4
      then (case str of
              None \<Rightarrow> Inl (TypeError ''Cannot read properties of undefined (reading split)'')
            | Some s \<Rightarrow> mask_each (Some (join ''[REDACTED]'' (js_split s secret))) secrets)
      else mask_each str secrets)"

definition maskSecretsInLog ::
  "env \<Rightarrow> ('a \<Rightarrow> string option) \<Rightarrow> 'a log_value \<Rightarrow> error + string option" where
  "maskSecretsInLog e stringify input =
     (let secrets = set_variables [APP_KEY e, APP_SECRET e, CONSUMER_KEY e, DEFAULT_TO e];
          str = (case input of Text s \<Rightarrow> Some s | Value v \<Rightarrow> stringify v)
      in mask_each str secrets)"

section \<open>The handlers of unexpected failures\<close>

text \<open>
  \<^verbatim>\<open>console.error(label, detail)\<close> prints the label, a space and the detail; a detail
  that is \<^verbatim>\<open>undefined\<close> prints as that word.
\<close>

fun detail_text :: "string option \<Rightarrow> string" where
  "detail_text None = ''undefined''"
| "detail_text (Some s) = s"

text \<open>
  \<^verbatim>\<open>process.on('unhandledRejection', (reason) => ...)\<close> and
  \<^verbatim>\<open>process.on('uncaughtException', (err) => ...)\<close>: a fixed message, and in
  development mode the masked technical detail. A throw of \<open>maskSecretsInLog\<close> leaves
  the handler.
\<close>

definition unhandledRejection ::
  "env \<Rightarrow> ('a \<Rightarrow> string option) \<Rightarrow> 'a log_value \<Rightarrow> ('w, 'c) state
     \<Rightarrow> (error + unit) \<times> ('w, 'c) state" where
  "unhandledRejection e stringify reason st =
     (let st1 = emit (ConsoleError (CHR 0x0A # ''An error occurred. Please try again later.'')) st
      in if NODE_ENV e = Some ''development''
         then (case maskSecretsInLog e stringify reason of
                 Inl err \<Rightarrow> (Inl err, st1)
               | Inr detail \<Rightarrow>
                   (Inr (), emit (ConsoleError (''[DEBUG] Technical detail (unhandledRejection):''
                                           @ '' '' @ detail_text detail)) st1))
         else (Inr (), st1))"

definition uncaughtException ::
  "env \<Rightarrow> ('a \<Rightarrow> string option) \<Rightarrow> 'a log_value \<Rightarrow> ('w, 'c) state
     \<Rightarrow> (error + unit) \<times> ('w, 'c) state" where
  "uncaughtException e stringify err st =
     (let st1 = emit (ConsoleError (CHR 0x0A # ''A critical error occurred. Please try again later.'')) st
      in if NODE_ENV e = Some ''development''
         then (case maskSecretsInLog e stringify err of
                 Inl thrown \<Rightarrow> (Inl thrown, st1)
               | Inr detail \<Rightarrow>
                   (Inr (), emit (ConsoleError (''[DEBUG] Technical detail (uncaughtException):''
                                           @ '' '' @ detail_text detail)) st1))
         else (Inr (), st1))"

text \<open>The texts the two handlers print as they are.\<close>

definition handler_texts :: "string list" where
  "handler_texts =
     [CHR 0x0A # ''An error occurred. Please try again later.'',
      ''[DEBUG] Technical detail (unhandledRejection):'',
      CHR 0x0A # ''A critical error occurred. Please try again later.'',
      ''[DEBUG] Technical detail (uncaughtException):'']"

section \<open>Deleting redirections\<close>

text \<open>White space as \<^verbatim>\<open>\s\<close> and \<^verbatim>\<open>trim\<close> see it, among the code units below 256.\<close>

definition is_space :: "char \<Rightarrow> bool" where
  "is_space ch \<longleftrightarrow> (of_char ch :: nat) \<in> set [9, 10, 11, 12, 13, 32, 160]"

definition trim :: "string \<Rightarrow> string" where
  "trim s = rev (dropWhile is_space (rev (dropWhile is_space s)))"

definition is_digit :: "char \<Rightarrow> bool" where
  "is_digit ch \<longleftrightarrow> (48::nat) \<le> of_char ch \<and> of_char ch \<le> (57::nat)"

text \<open>The class \<^verbatim>\<open>[^@\s]\<close>.\<close>

definition plain :: "char \<Rightarrow> bool" where
  "plain ch \<longleftrightarrow> ch \<noteq> CHR ''@'' \<and> \<not> is_space ch"

text \<open>
  The three patterns of \<open>validateCliArg\<close>: \<^verbatim>\<open>/^\d+$/\<close>, \<^verbatim>\<open>/^[^@\s]+$/\<close> and
  \<^verbatim>\<open>/^[^@\s]+@[^@\s]+\.[^@\s]+$/\<close>. In the last one the local part ends at the
  first \<^verbatim>\<open>@\<close>, and what follows holds a dot that is neither its first nor its last
  character. The value is a string, as the command line gives it.
\<close>

definition matches_id :: "string \<Rightarrow> bool" where
  "matches_id s \<longleftrightarrow> s \<noteq> [] \<and> list_all is_digit s"

definition matches_local :: "string \<Rightarrow> bool" where
  "matches_local s \<longleftrightarrow> s \<noteq> [] \<and> list_all plain s"

definition matches_email :: "string \<Rightarrow> bool" where
  "matches_email s \<longleftrightarrow>
     (let local = takeWhile (\<lambda>ch. ch \<noteq> CHR ''@'') s;
          rest = dropWhile (\<lambda>ch. ch \<noteq> CHR ''@'') s
      in local \<noteq> [] \<and> list_all plain local \<and> rest \<noteq> []
         \<and> list_all plain (tl rest) \<and> CHR ''.'' \<in> set (butlast (tl (tl rest))))"

definition validateCliArg :: "string \<Rightarrow> string \<Rightarrow> error + string" where
  "validateCliArg val type =
     (let trimmed = trim val
      in if type = ''id''
         then (if matches_id trimmed then Inr trimmed
               else Inl (InvalidArgument ''Invalid id: must be a positive integer.''))
         else if type = ''email''
         then (if matches_email trimmed then Inr trimmed
               else Inl (InvalidArgument ''Invalid email address.''))
         else if type = ''localOrEmail''
         then (if matches_local trimmed then Inr trimmed
               else if matches_email trimmed then Inr trimmed
               else Inl (InvalidArgument ''Invalid local part or email address.''))
         else Inl (InvalidArgument ''Unknown validation type.''))"

text \<open>
  \<^verbatim>\<open>deleteRedir(...ids)\<close>: one DELETE request per argument, the identifier printed into
  the path by a template literal; a rejected request throws.
\<close>

fun deleteRedir ::
  "'w client \<Rightarrow> string \<Rightarrow> ident option list \<Rightarrow> ('w, 'c) state \<Rightarrow> (error + unit) \<times> ('w, 'c) state" where
  "deleteRedir ovh domain [] st = (Inr (), st)"
| "deleteRedir ovh domain (i # ids) st =
     (case ovhRequest ovh DELETE (redirection_id_path domain (template_value i)) st of
        (Inl err, st') \<Rightarrow> (Inl err, st')
      | (Inr answer, st') \<Rightarrow> deleteRedir ovh domain ids st')"

text \<open>
  The body of the inner \<^verbatim>\<open>try\<close> of the \<^verbatim>\<open>redir delete\<close> action, for one item.
  \<^verbatim>\<open>Number(item).toString()\<close> belongs to the runtime and is a parameter.
\<close>

definition delete_item ::
  "(string \<Rightarrow> string) \<Rightarrow> 'w client \<Rightarrow> string \<Rightarrow> string \<Rightarrow> ('w, cache) state
     \<Rightarrow> (error + unit) \<times> ('w, cache) state" where
  "delete_item Number_toString ovh domain item st =
     (let isId = (Number_toString item = item)
      in case validateCliArg item (if isId then ''id'' else ''localOrEmail'') of
           Inl err \<Rightarrow> (Inl err, st)
         | Inr sanitized \<Rightarrow>
             if isId then deleteRedir ovh domain [Some (IdStr sanitized)] st
             else (case redirByFrom domain (cache st) sanitized of
                     Inl err \<Rightarrow> (Inl err, st)
                   | Inr found \<Rightarrow> deleteRedir ovh domain [lookup_id found] st))"

text \<open>The loop over the items: a failure is printed for its item and the loop goes on.\<close>

fun delete_items ::
  "(string \<Rightarrow> string) \<Rightarrow> 'w client \<Rightarrow> string \<Rightarrow> string list \<Rightarrow> ('w, cache) state \<Rightarrow> ('w, cache) state" where
  "delete_items Number_toString ovh domain [] st = st"
| "delete_items Number_toString ovh domain (item # items) st =
     (case delete_item Number_toString ovh domain item st of
        (Inl err, st') \<Rightarrow>
          delete_items Number_toString ovh domain items
            (emit (ConsoleError (''Failed to delete '' @ [CHR 0x22] @ item @ [CHR 0x22]
                                 @ '': '' @ message err)) st')
      | (Inr ok, st') \<Rightarrow> delete_items Number_toString ovh domain items st')"

definition redir_delete ::
  "(string \<Rightarrow> string) \<Rightarrow> (string \<Rightarrow> string \<Rightarrow> int) \<Rightarrow> 'w client \<Rightarrow> string \<Rightarrow> string list
     \<Rightarrow> ('w, cache) state \<Rightarrow> ('w, cache) state" where
  "redir_delete Number_toString localeCompare ovh domain items st =
     (case updateRedirections localeCompare ovh domain
             (delete_items Number_toString ovh domain items st) of
        (Inl err, st') \<Rightarrow> emit (ConsoleError (''Unexpected error: '' @ message err)) st'
      | (Inr ok, st') \<Rightarrow> st')"

section \<open>A provider for concrete runs\<close>

text \<open>
  A client that implements the request contract over a list of redirections: the
  identifier list, the detail of one redirection, and its deletion. Concrete runs of the
  operations use it in place of the remote provider.
\<close>

definition provider :: "string \<Rightarrow> redirection list client" where
  "provider domain w m path =
     (if m = GET \<and> path = redirection_path domain then (Inr (IdList (map r_id w)), w)
      else case find (\<lambda>r. redirection_id_path domain (js_String (r_id r)) = path) w of
             None \<Rightarrow> (Inl (ApiError ''This service does not exist''), w)
           | Some r \<Rightarrow>
               if m = GET then (Inr (Details r), w)
               else if m = DELETE then (Inr Ack, filter (\<lambda>x. x \<noteq> r) w)
               else (Inl (ApiError ''Unsupported method''), w))"

definition redirection_of :: "int \<Rightarrow> string \<Rightarrow> string \<Rightarrow> redirection" where
  "redirection_of n f t = \<lparr>r_id = IdNum n, r_from = f, r_to = t\<rparr>"

definition process_state :: "'w \<Rightarrow> 'c \<Rightarrow> ('w, 'c) state" where
  "process_state remote loaded =
     \<lparr>world = remote, cache = loaded, disk = Some loaded, writable = True, trace = []\<rparr>"

section \<open>Lookup by address\<close>

lemma find_first_index:
  "i < length xs \<Longrightarrow> P (xs ! i) \<Longrightarrow> \<forall>j<i. \<not> P (xs ! j) \<Longrightarrow> find P xs = Some (xs ! i)"
proof (induction xs arbitrary: i)
  case Nil
  then show ?case by simp
next
  case (Cons x xs)
  show ?case
  proof (cases i)
    case 0
    with Cons.prems show ?thesis by simp
  next
    case (Suc k)
    with Cons.prems have "\<not> P x" by auto
    moreover have "find P xs = Some (xs ! k)"
      using Cons.prems Suc by (intro Cons.IH) auto
    ultimately show ?thesis using Suc by simp
  qed
qed

lemma load_cache_has_domain: "load_cache domain parsed_file domain \<noteq> None"
  by (auto simp: load_cache_def Let_def split: sum.splits)

text \<open>
  C10. In a cache that has an entry for the active domain, \<open>redirByFrom\<close> returns the
  first record of the domain's sequence whose \<open>from\<close> is the given string or that
  string followed by \<open>@domain\<close>; when no record matches it returns the empty object,
  whose \<open>id\<close> field reads as undefined.
\<close>

theorem redirByFrom_first_match_or_empty:
  assumes "snapshot domain = Some entry"
  shows "(\<forall>i<length (redirections entry).
            (r_from (redirections entry ! i) = str
               \<or> r_from (redirections entry ! i) = str @ ''@'' @ domain)
            \<and> (\<forall>j<i. r_from (redirections entry ! j) \<noteq> str
                   \<and> r_from (redirections entry ! j) \<noteq> str @ ''@'' @ domain)
            \<longrightarrow> redirByFrom domain snapshot str = Inr (Found (redirections entry ! i)))
       \<and> ((\<forall>r\<in>set (redirections entry).
               r_from r \<noteq> str \<and> r_from r \<noteq> str @ ''@'' @ domain)
            \<longrightarrow> redirByFrom domain snapshot str = Inr EmptyObject
                \<and> lookup_id EmptyObject = None)"
proof (intro conjI allI impI)
  fix i
  assume i: "i < length (redirections entry)"
    and m: "(r_from (redirections entry ! i) = str
               \<or> r_from (redirections entry ! i) = str @ ''@'' @ domain)
            \<and> (\<forall>j<i. r_from (redirections entry ! j) \<noteq> str
                   \<and> r_from (redirections entry ! j) \<noteq> str @ ''@'' @ domain)"
  have "find (from_matches domain str) (redirections entry) = Some (redirections entry ! i)"
    using i m by (intro find_first_index) (auto simp: from_matches_def)
  then show "redirByFrom domain snapshot str = Inr (Found (redirections entry ! i))"
    using assms by (simp add: redirByFrom_def)
next
  assume "\<forall>r\<in>set (redirections entry).
            r_from r \<noteq> str \<and> r_from r \<noteq> str @ ''@'' @ domain"
  then have "find (from_matches domain str) (redirections entry) = None"
    by (auto simp: find_None_iff from_matches_def)
  then show "redirByFrom domain snapshot str = Inr EmptyObject"
    using assms by (simp add: redirByFrom_def)
next
  show "lookup_id EmptyObject = None" by simp
qed

theorem redirByFrom_first_match_or_empty_witness:
  "redirByFrom ''x.com''
     [''x.com'' \<mapsto> \<lparr>redirections =
        [\<lparr>r_id = IdStr ''1'', r_from = ''a@x.com'', r_to = ''b@y.org''\<rparr>,
         \<lparr>r_id = IdStr ''2'', r_from = ''c@x.com'', r_to = ''d@y.org''\<rparr>,
         \<lparr>r_id = IdStr ''3'', r_from = ''c@x.com'', r_to = ''e@y.org''\<rparr>]\<rparr>] ''c''
     = Inr (Found \<lparr>r_id = IdStr ''2'', r_from = ''c@x.com'', r_to = ''d@y.org''\<rparr>)
   \<and> redirByFrom ''x.com''
     [''x.com'' \<mapsto> \<lparr>redirections =
        [\<lparr>r_id = IdStr ''1'', r_from = ''a@x.com'', r_to = ''b@y.org''\<rparr>,
         \<lparr>r_id = IdStr ''2'', r_from = ''c@x.com'', r_to = ''d@y.org''\<rparr>,
         \<lparr>r_id = IdStr ''3'', r_from = ''c@x.com'', r_to = ''e@y.org''\<rparr>]\<rparr>] ''nobody''
     = Inr EmptyObject"
  using redirByFrom_first_match_or_empty
    [of "[''x.com'' \<mapsto> \<lparr>redirections =
        [\<lparr>r_id = IdStr ''1'', r_from = ''a@x.com'', r_to = ''b@y.org''\<rparr>,
         \<lparr>r_id = IdStr ''2'', r_from = ''c@x.com'', r_to = ''d@y.org''\<rparr>,
         \<lparr>r_id = IdStr ''3'', r_from = ''c@x.com'', r_to = ''e@y.org''\<rparr>]\<rparr>]"
        "''x.com''"
        "\<lparr>redirections =
        [\<lparr>r_id = IdStr ''1'', r_from = ''a@x.com'', r_to = ''b@y.org''\<rparr>,
         \<lparr>r_id = IdStr ''2'', r_from = ''c@x.com'', r_to = ''d@y.org''\<rparr>,
         \<lparr>r_id = IdStr ''3'', r_from = ''c@x.com'', r_to = ''e@y.org''\<rparr>]\<rparr>"
        "''c''"]
    redirByFrom_first_match_or_empty
    [of "[''x.com'' \<mapsto> \<lparr>redirections =
        [\<lparr>r_id = IdStr ''1'', r_from = ''a@x.com'', r_to = ''b@y.org''\<rparr>,
         \<lparr>r_id = IdStr ''2'', r_from = ''c@x.com'', r_to = ''d@y.org''\<rparr>,
         \<lparr>r_id = IdStr ''3'', r_from = ''c@x.com'', r_to = ''e@y.org''\<rparr>]\<rparr>]"
        "''x.com''"
        "\<lparr>redirections =
        [\<lparr>r_id = IdStr ''1'', r_from = ''a@x.com'', r_to = ''b@y.org''\<rparr>,
         \<lparr>r_id = IdStr ''2'', r_from = ''c@x.com'', r_to = ''d@y.org''\<rparr>,
         \<lparr>r_id = IdStr ''3'', r_from = ''c@x.com'', r_to = ''e@y.org''\<rparr>]\<rparr>"
        "''nobody''"]
  by (simp add: redirByFrom_def from_matches_def)

section \<open>Sorting\<close>

lemma set_insert_by [simp]: "set (insert_by c x ys) = insert x (set ys)"
  by (induction ys) auto

lemma mset_insert_by [simp]: "mset (insert_by c x ys) = add_mset x (mset ys)"
  by (induction ys) auto

lemma mset_js_sort [simp]: "mset (js_sort c xs) = mset xs"
  by (induction xs) (auto simp: js_sort_def)

lemma set_js_sort [simp]: "set (js_sort c xs) = set xs"
  by (induction xs) (auto simp: js_sort_def)

lemma length_js_sort [simp]: "length (js_sort c xs) = length xs"
  using mset_js_sort [of c xs] by (metis size_mset)

lemma js_sort_Cons: "js_sort c (x # xs) = insert_by c x (js_sort c xs)"
  by (simp add: js_sort_def)

lemma js_sort_Nil [simp]: "js_sort c [] = []"
  by (simp add: js_sort_def)

lemma consistentD_total: "consistent c \<Longrightarrow> \<not> c a b \<le> 0 \<Longrightarrow> c b a \<le> 0"
  unfolding consistent_def by blast

lemma consistentD_trans: "consistent c \<Longrightarrow> c a b \<le> 0 \<Longrightarrow> c b d \<le> 0 \<Longrightarrow> c a d \<le> 0"
  unfolding consistent_def by blast

lemma sorted_insert_by:
  assumes "consistent c" "sorted_wrt (\<lambda>a b. c a b \<le> 0) ys"
  shows "sorted_wrt (\<lambda>a b. c a b \<le> 0) (insert_by c x ys)"
  using assms(2)
proof (induction ys)
  case Nil
  then show ?case by simp
next
  case (Cons y ys)
  show ?case
  proof (cases "c x y \<le> 0")
    case True
    then have "\<forall>z\<in>set ys. c x z \<le> 0"
      using Cons.prems consistentD_trans [OF assms(1)] by auto
    with True Cons.prems show ?thesis by simp
  next
    case False
    then have "c y x \<le> 0" using consistentD_total [OF assms(1)] by blast
    with False Cons show ?thesis by auto
  qed
qed

lemma sorted_js_sort:
  "consistent c \<Longrightarrow> sorted_wrt (\<lambda>a b. c a b \<le> 0) (js_sort c xs)"
  by (induction xs) (simp_all add: js_sort_Cons sorted_insert_by)

lemma insert_by_le_all:
  "\<forall>y\<in>set ys. c x y \<le> 0 \<Longrightarrow> insert_by c x ys = x # ys"
  by (cases ys) auto

lemma js_sort_sorted:
  "sorted_wrt (\<lambda>a b. c a b \<le> 0) xs \<Longrightarrow> js_sort c xs = xs"
  by (induction xs) (simp_all add: js_sort_Cons insert_by_le_all)

section \<open>Reconciliation\<close>

lemma ovhRequest_read:
  "ovh (world st) m path = (answer, world st)
   \<Longrightarrow> ovhRequest ovh m path st = (answer, emit (Request m path) st)"
  by (simp add: ovhRequest_def)

lemma world_emit [simp]: "world (emit ev st) = world st"
  and cache_emit [simp]: "cache (emit ev st) = cache st"
  and disk_emit [simp]: "disk (emit ev st) = disk st"
  and writable_emit [simp]: "writable (emit ev st) = writable st"
  and trace_emit [simp]: "trace (emit ev st) = trace st @ [ev]"
  by (simp_all add: emit_def)

lemma fetch_details_reads:
  assumes "\<forall>i\<in>set ids. ovh (world st) GET (redirection_id_path domain (js_String i))
              = (Inr (Details (details i)), world st)"
  shows "\<exists>st'. fetch_details ovh domain ids acc st = (Inr (acc @ map details ids), st')
           \<and> world st' = world st \<and> cache st' = cache st \<and> disk st' = disk st
           \<and> writable st' = writable st
           \<and> trace st' = trace st
                @ map (\<lambda>i. Request GET (redirection_id_path domain (js_String i))) ids"
  using assms
proof (induction ids arbitrary: acc st)
  case Nil
  then show ?case by simp
next
  case (Cons i ids)
  let ?st1 = "emit (Request GET (redirection_id_path domain (js_String i))) st"
  have req: "ovhRequest ovh GET (redirection_id_path domain (js_String i)) st
               = (Inr (Details (details i)), ?st1)"
    using Cons.prems by (intro ovhRequest_read) simp
  have "\<forall>j\<in>set ids. ovh (world ?st1) GET (redirection_id_path domain (js_String j))
              = (Inr (Details (details j)), world ?st1)"
    using Cons.prems by simp
  from Cons.IH [OF this, of "acc @ [details i]"] obtain st' where
    "fetch_details ovh domain ids (acc @ [details i]) ?st1
       = (Inr ((acc @ [details i]) @ map details ids), st')"
    "world st' = world ?st1" "cache st' = cache ?st1" "disk st' = disk ?st1"
    "writable st' = writable ?st1"
    "trace st' = trace ?st1
       @ map (\<lambda>i. Request GET (redirection_id_path domain (js_String i))) ids"
    by blast
  then show ?case using req by simp
qed

lemma kept_filter:
  "filter (\<lambda>r. r_id r \<notin> set (filter (\<lambda>i. i \<notin> set R) (map r_id old))) old
     = filter (\<lambda>r. r_id r \<in> set R) old"
  by (rule filter_cong) auto

lemma kept_filter':
  "filter (\<lambda>r. r_id r \<in> r_id ` set old \<longrightarrow> r_id r \<in> set R) old
     = filter (\<lambda>r. r_id r \<in> set R) old"
  by (rule filter_cong) auto

lemma updateRedirections_run:
  assumes entry: "cache st domain = Some entry"
    and ids: "ovh (world st) GET (redirection_path domain) = (Inr (IdList R), world st)"
    and det: "\<forall>i\<in>set R. i \<notin> r_id ` set (redirections entry) \<longrightarrow>
                ovh (world st) GET (redirection_id_path domain (js_String i))
                  = (Inr (Details (details i)), world st)"
  shows "\<exists>st'. updateRedirections c ovh domain st
                 = (if writable st then Inr () else Inl (ApiError ''EACCES: permission denied''), st')
           \<and> cache st' = (cache st)(domain \<mapsto>
                 entry\<lparr>redirections := merged_redirections c (redirections entry) R details\<rparr>)
           \<and> world st' = world st \<and> writable st' = writable st
           \<and> disk st' = (if writable st then Some (cache st') else disk st)
           \<and> trace st' = trace st @ run_trace domain (redirections entry) R
                           @ (if writable st then [WriteFile] else [])"
proof -
  let ?st1 = "emit (Request GET (redirection_path domain)) st"
  let ?new = "filter (\<lambda>i. i \<notin> r_id ` set (redirections entry)) R"
  have req: "ovhRequest ovh GET (redirection_path domain) st = (Inr (IdList R), ?st1)"
    using ids by (rule ovhRequest_read)
  have "\<forall>i\<in>set ?new. ovh (world ?st1) GET (redirection_id_path domain (js_String i))
              = (Inr (Details (details i)), world ?st1)"
    using det by simp
  then have "\<exists>st'. fetch_details ovh domain ?new [] ?st1 = (Inr ([] @ map details ?new), st')
           \<and> world st' = world ?st1 \<and> cache st' = cache ?st1 \<and> disk st' = disk ?st1
           \<and> writable st' = writable ?st1
           \<and> trace st' = trace ?st1
                @ map (\<lambda>i. Request GET (redirection_id_path domain (js_String i))) ?new"
    by (rule fetch_details_reads)
  then obtain st2 where
    fd: "fetch_details ovh domain ?new [] ?st1 = (Inr (map details ?new), st2)"
    and st2: "world st2 = world st" "cache st2 = cache st" "disk st2 = disk st"
      "writable st2 = writable st"
      "trace st2 = trace st @ [Request GET (redirection_path domain)]
         @ map (\<lambda>i. Request GET (redirection_id_path domain (js_String i))) ?new"
    by auto
  show ?thesis
    using req entry fd st2
    by (simp add: updateRedirections_def Let_def writeFile_def kept_filter kept_filter'
          merged_redirections_def run_trace_def)
qed

lemma merged_ids:
  assumes "\<forall>i\<in>set R. i \<notin> r_id ` set old \<longrightarrow> r_id (details i) = i"
  shows "mset (map r_id (merged_redirections c old R details))
           = mset (filter (\<lambda>i. i \<in> set R) (map r_id old))
             + mset (filter (\<lambda>i. i \<notin> r_id ` set old) R)"
proof -
  have "map r_id (map details (filter (\<lambda>i. i \<notin> r_id ` set old) R))
          = filter (\<lambda>i. i \<notin> r_id ` set old) R"
    using assms by (induction R) auto
  moreover have "mset (map r_id (merged_redirections c old R details))
          = mset (map r_id (filter (\<lambda>r. r_id r \<in> set R) old))
            + mset (map r_id (map details (filter (\<lambda>i. i \<notin> r_id ` set old) R)))"
    unfolding merged_redirections_def
    by (simp only: mset_map mset_js_sort mset_append image_mset_union)
  ultimately show ?thesis by (simp add: filter_map comp_def)
qed

lemma merged_id_set:
  assumes "\<forall>i\<in>set R. i \<notin> r_id ` set old \<longrightarrow> r_id (details i) = i"
  shows "set (map r_id (merged_redirections c old R details)) = set R"
proof -
  have "set_mset (mset (map r_id (merged_redirections c old R details)))
          = set_mset (mset (filter (\<lambda>i. i \<in> set R) (map r_id old))
             + mset (filter (\<lambda>i. i \<notin> r_id ` set old) R))"
    using merged_ids [OF assms] by simp
  then show ?thesis by auto
qed

lemma merged_id_distinct:
  assumes "\<forall>i\<in>set R. i \<notin> r_id ` set old \<longrightarrow> r_id (details i) = i"
    and "distinct R" "distinct (map r_id old)"
  shows "distinct (map r_id (merged_redirections c old R details))"
proof -
  have "distinct (filter (\<lambda>i. i \<in> set R) (map r_id old) @ filter (\<lambda>i. i \<notin> r_id ` set old) R)"
    using assms(2,3) by auto
  moreover have "mset (map r_id (merged_redirections c old R details))
      = mset (filter (\<lambda>i. i \<in> set R) (map r_id old) @ filter (\<lambda>i. i \<notin> r_id ` set old) R)"
    using merged_ids [OF assms(1)] by simp
  ultimately show ?thesis by (metis mset_eq_imp_distinct_iff)
qed

text \<open>
  C1. Take any state whose cache holds the active domain and whose file can be written,
  and a provider that answers the identifier list \<open>R\<close> and, for every identifier of
  \<open>R\<close> that the cache does not hold, the detail of the redirection with that
  identifier. Then \<open>updateRedirections\<close> succeeds, the file holds the cache, and the
  identifiers of the active domain's sequence are exactly those of \<open>R\<close>: none is
  missing and none outside \<open>R\<close> survives. An empty \<open>R\<close> leaves an empty sequence.
  When \<open>R\<close> and the prior sequence list no identifier twice (the invariant of the
  data model), neither does the result: one record per identifier of \<open>R\<close>.
\<close>

theorem updateRedirections_exact_ids:
  assumes entry: "cache st domain = Some entry"
    and disk_ok: "writable st"
    and ids: "ovh (world st) GET (redirection_path domain) = (Inr (IdList R), world st)"
    and det: "\<forall>i\<in>set R. i \<notin> r_id ` set (redirections entry) \<longrightarrow>
                (\<exists>d. ovh (world st) GET (redirection_id_path domain (js_String i))
                        = (Inr (Details d), world st) \<and> r_id d = i)"
  shows "\<exists>st' entry'. updateRedirections localeCompare ovh domain st = (Inr (), st')
           \<and> disk st' = Some (cache st') \<and> cache st' domain = Some entry'
           \<and> set (map r_id (redirections entry')) = set R
           \<and> (R = [] \<longrightarrow> redirections entry' = [])
           \<and> (distinct R \<and> distinct (map r_id (redirections entry))
                \<longrightarrow> distinct (map r_id (redirections entry')))"
proof -
  from det obtain details where
    d: "\<forall>i\<in>set R. i \<notin> r_id ` set (redirections entry) \<longrightarrow>
           ovh (world st) GET (redirection_id_path domain (js_String i))
             = (Inr (Details (details i)), world st) \<and> r_id (details i) = i"
    by metis
  then have d1: "\<forall>i\<in>set R. i \<notin> r_id ` set (redirections entry) \<longrightarrow>
           ovh (world st) GET (redirection_id_path domain (js_String i))
             = (Inr (Details (details i)), world st)"
    and d2: "\<forall>i\<in>set R. i \<notin> r_id ` set (redirections entry) \<longrightarrow> r_id (details i) = i"
    by blast+
  let ?m = "merged_redirections localeCompare (redirections entry) R details"
  from updateRedirections_run [where ovh = ovh and st = st and details = details
      and c = localeCompare, OF entry ids d1] disk_ok obtain st' where
    run: "updateRedirections localeCompare ovh domain st = (Inr (), st')"
    and c: "cache st' = (cache st)(domain \<mapsto> entry\<lparr>redirections := ?m\<rparr>)"
    and f: "disk st' = Some (cache st')"
    by auto
  have s: "set (map r_id ?m) = set R" by (rule merged_id_set [OF d2])
  have e: "R = [] \<longrightarrow> ?m = []" using s by auto
  have "distinct R \<and> distinct (map r_id (redirections entry)) \<longrightarrow> distinct (map r_id ?m)"
    using merged_id_distinct [OF d2] by blast
  with run c f s e show ?thesis by simp
qed

lemmas run_defs = updateRedirections_def provider_def redirection_of_def process_state_def ovhRequest_def
  emit_def redirection_path_def redirection_id_path_def number_text_def decimal.simps digit_def
  writeFile_def js_sort_def collate_def base_weight_def case_weight_def is_upper_def Let_def

theorem updateRedirections_exact_ids_witness:
  "\<exists>st' entry'.
     updateRedirections collate (provider ''x.com'') ''x.com''
       (process_state [redirection_of 2 ''b@x.com'' ''b@y.org'', redirection_of 3 ''c@x.com'' ''d@x.com'']
          [''x.com'' \<mapsto> \<lparr>redirections =
             [redirection_of 1 ''a@x.com'' ''b@y.org'', redirection_of 2 ''b@x.com'' ''b@y.org'']\<rparr>])
       = (Inr (), st')
     \<and> disk st' = Some (cache st') \<and> cache st' ''x.com'' = Some entry'
     \<and> set (map r_id (redirections entry')) = set [IdNum 2, IdNum 3]
     \<and> ([IdNum 2, IdNum 3] = [] \<longrightarrow> redirections entry' = [])
     \<and> (distinct [IdNum 2, IdNum 3]
          \<and> distinct (map r_id (redirections \<lparr>redirections =
             [redirection_of 1 ''a@x.com'' ''b@y.org'', redirection_of 2 ''b@x.com'' ''b@y.org'']\<rparr>))
          \<longrightarrow> distinct (map r_id (redirections entry')))"
  by (rule updateRedirections_exact_ids)
     (simp_all add: provider_def redirection_of_def process_state_def redirection_path_def
        redirection_id_path_def number_text_def decimal.simps digit_def)

section \<open>The comparator of concrete runs is consistent\<close>

lemma compare_weights_sym: "compare_weights ys xs = - compare_weights xs ys"
  by (induction xs ys rule: compare_weights.induct) auto

lemma compare_weights_zero: "compare_weights xs ys = 0 \<Longrightarrow> xs = ys"
  by (induction xs ys rule: compare_weights.induct) (auto split: if_splits)

lemma compare_weights_refl [simp]: "compare_weights xs xs = 0"
  by (induction xs) auto

lemma compare_weights_trans:
  "compare_weights xs ys < 0 \<Longrightarrow> compare_weights ys zs < 0 \<Longrightarrow> compare_weights xs zs < 0"
proof (induction xs arbitrary: ys zs)
  case Nil
  then show ?case by (cases ys; cases zs) simp_all
next
  case (Cons x xs)
  from Cons.prems obtain y ys' where ys: "ys = y # ys'" by (cases ys) auto
  from Cons.prems ys obtain z zs' where zs: "zs = z # zs'" by (cases zs) auto
  from Cons.prems(1) ys have xy: "x < y \<or> (x = y \<and> compare_weights xs ys' < 0)"
    by (simp split: if_splits)
  from Cons.prems(2) ys zs have yz: "y < z \<or> (y = z \<and> compare_weights ys' zs' < 0)"
    by (simp split: if_splits)
  show ?case
  proof (cases "x < z")
    case True
    then show ?thesis using zs by simp
  next
    case False
    with xy yz have "x = y" "y = z" "compare_weights xs ys' < 0" "compare_weights ys' zs' < 0"
      by auto
    then have "compare_weights xs zs' < 0" "x = z" using Cons.IH by auto
    then show ?thesis using zs by simp
  qed
qed

lemma compare_weights_zero_iff: "compare_weights xs ys = 0 \<longleftrightarrow> xs = ys"
  using compare_weights_zero [of xs ys] by auto

lemma collate_le_iff:
  "collate a b \<le> 0 \<longleftrightarrow>
     compare_weights (map base_weight a) (map base_weight b) < 0
     \<or> (map base_weight a = map base_weight b
        \<and> compare_weights (map case_weight a) (map case_weight b) \<le> 0)"
proof (cases "compare_weights (map base_weight a) (map base_weight b) = 0")
  case True
  then have "map base_weight a = map base_weight b" by (rule compare_weights_zero)
  with True show ?thesis by (simp add: collate_def)
next
  case False
  then have "map base_weight a \<noteq> map base_weight b"
    by (simp add: compare_weights_zero_iff)
  with False show ?thesis by (auto simp: collate_def)
qed

lemma compare_weights_total: "compare_weights xs ys \<le> 0 \<or> compare_weights ys xs \<le> 0"
  using compare_weights_sym [of ys xs] by linarith

lemma compare_weights_trans_le:
  assumes "compare_weights xs ys \<le> 0" "compare_weights ys zs \<le> 0"
  shows "compare_weights xs zs \<le> 0"
proof (cases "xs = ys \<or> ys = zs")
  case True
  then show ?thesis using assms by auto
next
  case False
  then have "compare_weights xs ys \<noteq> 0" "compare_weights ys zs \<noteq> 0"
    by (simp_all add: compare_weights_zero_iff)
  with assms have "compare_weights xs ys < 0" "compare_weights ys zs < 0" by simp_all
  then have "compare_weights xs zs < 0" by (rule compare_weights_trans)
  then show ?thesis by simp
qed

lemma collate_total: "collate a b \<le> 0 \<or> collate b a \<le> 0"
proof -
  let ?p = "compare_weights (map base_weight a) (map base_weight b)"
  have sym: "compare_weights (map base_weight b) (map base_weight a) = - ?p"
    by (rule compare_weights_sym)
  consider "?p < 0" | "?p = 0" | "0 < ?p" by linarith
  then show ?thesis
  proof cases
    case 1
    then show ?thesis by (simp add: collate_le_iff)
  next
    case 2
    then have eq: "map base_weight a = map base_weight b"
      by (rule compare_weights_zero)
    from compare_weights_total [of "map case_weight a" "map case_weight b"]
    show ?thesis
    proof
      assume "compare_weights (map case_weight a) (map case_weight b) \<le> 0"
      with eq show ?thesis by (simp add: collate_le_iff)
    next
      assume "compare_weights (map case_weight b) (map case_weight a) \<le> 0"
      with eq show ?thesis by (simp add: collate_le_iff)
    qed
  next
    case 3
    with sym have "compare_weights (map base_weight b) (map base_weight a) < 0" by simp
    then show ?thesis by (simp add: collate_le_iff)
  qed
qed

lemma collate_trans:
  assumes ab: "collate a b \<le> 0" and bd: "collate b d \<le> 0"
  shows "collate a d \<le> 0"
proof -
  let ?B = "map base_weight" and ?C = "map case_weight"
  from ab have ab': "compare_weights (?B a) (?B b) < 0
      \<or> (?B a = ?B b \<and> compare_weights (?C a) (?C b) \<le> 0)"
    by (simp only: collate_le_iff)
  from bd have bd': "compare_weights (?B b) (?B d) < 0
      \<or> (?B b = ?B d \<and> compare_weights (?C b) (?C d) \<le> 0)"
    by (simp only: collate_le_iff)
  show ?thesis
  proof (cases "?B a = ?B b")
    case True
    note eq1 = True
    show ?thesis
    proof (cases "?B b = ?B d")
      case True
      with eq1 ab' bd' have "compare_weights (?C a) (?C b) \<le> 0"
        "compare_weights (?C b) (?C d) \<le> 0" by simp_all
      then have "compare_weights (?C a) (?C d) \<le> 0" by (rule compare_weights_trans_le)
      moreover have "?B a = ?B d" using eq1 True by simp
      ultimately show ?thesis by (simp only: collate_le_iff) simp
    next
      case False
      with bd' have "compare_weights (?B b) (?B d) < 0" by blast
      with eq1 have "compare_weights (?B a) (?B d) < 0" by simp
      then show ?thesis by (simp only: collate_le_iff) simp
    qed
  next
    case False
    with ab' have lt1: "compare_weights (?B a) (?B b) < 0" by blast
    show ?thesis
    proof (cases "?B b = ?B d")
      case True
      with lt1 have "compare_weights (?B a) (?B d) < 0" by simp
      then show ?thesis by (simp only: collate_le_iff) simp
    next
      case False
      with bd' have "compare_weights (?B b) (?B d) < 0" by blast
      with lt1 have "compare_weights (?B a) (?B d) < 0" by (rule compare_weights_trans)
      then show ?thesis by (simp only: collate_le_iff) simp
    qed
  qed
qed

lemma consistent_collate: "consistent collate"
  unfolding consistent_def using collate_total collate_trans by blast

lemma consistent_on_field: "consistent c \<Longrightarrow> consistent (\<lambda>x y. c (f x) (f y))"
  unfolding consistent_def by blast

lemma sorted_merged:
  "consistent c \<Longrightarrow>
   sorted_wrt (\<lambda>x y. c (r_from x) (r_from y) \<le> 0) (merged_redirections c old R details)"
  unfolding merged_redirections_def
  by (rule sorted_js_sort) (rule consistent_on_field)

section \<open>What a run leaves untouched\<close>

lemma ovhRequest_frame:
  "ovhRequest ovh m path st = (answer, st')
   \<Longrightarrow> cache st' = cache st \<and> disk st' = disk st \<and> writable st' = writable st"
  by (auto simp: ovhRequest_def emit_def split: prod.splits)

lemma fetch_details_frame:
  "fetch_details ovh domain ids acc st = (r, st')
   \<Longrightarrow> cache st' = cache st \<and> disk st' = disk st \<and> writable st' = writable st"
proof (induction ids arbitrary: acc st)
  case Nil
  then show ?case by simp
next
  case (Cons i ids)
  obtain answer st1 where
    req: "ovhRequest ovh GET (redirection_id_path domain (js_String i)) st = (answer, st1)"
    by (cases "ovhRequest ovh GET (redirection_id_path domain (js_String i)) st")
  note f1 = ovhRequest_frame [OF req]
  show ?case
  proof (cases answer)
    case (Inl err)
    with Cons.prems req f1 show ?thesis by simp
  next
    case (Inr resp)
    show ?thesis
    proof (cases resp)
      case (Details d)
      with Cons.prems req Inr
      have "fetch_details ovh domain ids (acc @ [d]) st1 = (r, st')" by simp
      from Cons.IH [OF this] f1 show ?thesis by simp
    next
      case (IdList x)
      with Cons.prems req Inr f1 show ?thesis by simp
    next
      case Ack
      with Cons.prems req Inr f1 show ?thesis by simp
    qed
  qed
qed

lemma writeFile_frame:
  "writeFile st = (r, st') \<Longrightarrow>
     cache st' = cache st \<and> (disk st' = disk st \<or> disk st' = Some (cache st'))"
  by (auto simp: writeFile_def split: if_splits)

lemma updateRedirections_frame:
  assumes "updateRedirections c ovh domain st = (r, st')"
  shows "(\<forall>d. d \<noteq> domain \<longrightarrow> cache st' d = cache st d)
         \<and> (disk st' = disk st \<or> disk st' = Some (cache st'))"
proof -
  obtain answer st1 where
    req: "ovhRequest ovh GET (redirection_path domain) st = (answer, st1)"
    by (cases "ovhRequest ovh GET (redirection_path domain) st")
  note f1 = ovhRequest_frame [OF req]
  show ?thesis
  proof (cases answer)
    case (Inl err)
    with assms req f1 show ?thesis by (simp add: updateRedirections_def)
  next
    case (Inr resp)
    show ?thesis
    proof (cases "cache st1 domain")
      case None
      with assms req Inr f1 show ?thesis by (simp add: updateRedirections_def)
    next
      case (Some entry)
      show ?thesis
      proof (cases resp)
        case (IdList R)
        let ?new = "filter (\<lambda>rId. rId \<notin> set (map r_id (redirections entry))) R"
        obtain fr st2 where fd: "fetch_details ovh domain ?new [] st1 = (fr, st2)"
          by (cases "fetch_details ovh domain ?new [] st1")
        note f2 = fetch_details_frame [OF fd]
        show ?thesis
        proof (cases fr)
          case (Inl err)
          with assms req Inr Some IdList fd f1 f2 show ?thesis
            by (simp add: updateRedirections_def Let_def)
        next
          case (Inr news)
          from assms req \<open>answer = Inr resp\<close> Some IdList fd Inr
          obtain st6 where w: "writeFile st6 = (r, st')"
            and c6: "\<forall>d. d \<noteq> domain \<longrightarrow> cache st6 d = cache st2 d"
            and d6: "disk st6 = disk st2"
            by (auto simp: updateRedirections_def Let_def emit_def)
          from writeFile_frame [OF w] c6 d6 f1 f2 show ?thesis by auto
        qed
      next
        case (Details x)
        with assms req Inr Some f1 show ?thesis by (simp add: updateRedirections_def)
      next
        case Ack
        with assms req Inr Some f1 show ?thesis by (simp add: updateRedirections_def)
      qed
    qed
  qed
qed

lemma load_cache_other: "d \<noteq> domain \<Longrightarrow> load_cache domain (Inr parsed) d = parsed d"
  by (simp add: load_cache_def Let_def)

section \<open>Running the reconciliation twice\<close>

lemma decimal_0 [simp]: "decimal 0 = ''0''"
  by (simp add: decimal.simps digit_def)

lemma merged_again:
  assumes c: "consistent c"
    and d2: "\<forall>i\<in>set R. i \<notin> r_id ` set old \<longrightarrow> r_id (details i) = i"
  shows "merged_redirections c (merged_redirections c old R details) R details'
           = merged_redirections c old R details"
proof -
  let ?m = "merged_redirections c old R details"
  have ids: "set (map r_id ?m) = set R" by (rule merged_id_set [OF d2])
  then have "\<forall>r\<in>set ?m. r_id r \<in> set R" by auto
  then have keep: "filter (\<lambda>r. r_id r \<in> set R) ?m = ?m" by simp
  have new: "filter (\<lambda>i. i \<notin> r_id ` set ?m) R = []"
    using ids by (auto simp: filter_empty_conv)
  have "js_sort (\<lambda>x y. c (r_from x) (r_from y)) ?m = ?m"
    by (rule js_sort_sorted) (rule sorted_merged [OF c])
  then show ?thesis
    by (subst (1) merged_redirections_def) (simp add: keep new)
qed

lemma run_trace_again:
  assumes d2: "\<forall>i\<in>set R. i \<notin> r_id ` set old \<longrightarrow> r_id (details i) = i"
  shows "run_trace domain (merged_redirections c old R details) R
           = [Request GET (redirection_path domain),
              ConsoleLog (decimal (length (merged_redirections c old R details))
                            @ '' remote redirection(s)''),
              ConsoleLog ''0 new redirection(s)'',
              ConsoleLog ''0 deleted redirection(s)'']"
proof -
  let ?m = "merged_redirections c old R details"
  have ids: "set (map r_id ?m) = set R" by (rule merged_id_set [OF d2])
  then have new: "filter (\<lambda>i. i \<notin> r_id ` set ?m) R = []"
    by (auto simp: filter_empty_conv)
  have del: "filter (\<lambda>i. i \<notin> set R) (map r_id ?m) = []"
    using ids by (auto simp: filter_empty_conv)
  show ?thesis by (simp add: run_trace_def new del)
qed

text \<open>
  C4. Take a consistent comparator, any state whose cache holds the active domain, and a
  provider whose reads leave it unchanged and answer the identifier list \<open>R\<close> and,
  for every new identifier, the detail of the redirection with that identifier. Then two
  runs of \<open>updateRedirections\<close> in a row end with the same outcome; the second run
  leaves the cache and the file as the first run left them, requests no detail, and
  prints 0 new and 0 deleted redirections.
\<close>

theorem updateRedirections_twice:
  assumes c: "consistent localeCompare"
    and entry: "cache st domain = Some entry"
    and ids: "ovh (world st) GET (redirection_path domain) = (Inr (IdList R), world st)"
    and det: "\<forall>i\<in>set R. i \<notin> r_id ` set (redirections entry) \<longrightarrow>
                (\<exists>d. ovh (world st) GET (redirection_id_path domain (js_String i))
                        = (Inr (Details d), world st) \<and> r_id d = i)"
  shows "\<exists>r st1 st2 entry1.
           updateRedirections localeCompare ovh domain st = (r, st1)
           \<and> updateRedirections localeCompare ovh domain st1 = (r, st2)
           \<and> cache st1 domain = Some entry1
           \<and> cache st2 = cache st1 \<and> disk st2 = disk st1
           \<and> trace st2 = trace st1
                @ [Request GET (redirection_path domain),
                   ConsoleLog (decimal (length (redirections entry1)) @ '' remote redirection(s)''),
                   ConsoleLog ''0 new redirection(s)'',
                   ConsoleLog ''0 deleted redirection(s)'']
                @ (if writable st then [WriteFile] else [])"
proof -
  from det obtain details where
    d: "\<forall>i\<in>set R. i \<notin> r_id ` set (redirections entry) \<longrightarrow>
           ovh (world st) GET (redirection_id_path domain (js_String i))
             = (Inr (Details (details i)), world st) \<and> r_id (details i) = i"
    by metis
  then have d1: "\<forall>i\<in>set R. i \<notin> r_id ` set (redirections entry) \<longrightarrow>
           ovh (world st) GET (redirection_id_path domain (js_String i))
             = (Inr (Details (details i)), world st)"
    and d2: "\<forall>i\<in>set R. i \<notin> r_id ` set (redirections entry) \<longrightarrow> r_id (details i) = i"
    by blast+
  let ?m = "merged_redirections localeCompare (redirections entry) R details"
  let ?e1 = "entry\<lparr>redirections := ?m\<rparr>"
  let ?r = "if writable st then Inr () else Inl (ApiError ''EACCES: permission denied'')"
  from updateRedirections_run [where ovh = ovh and st = st and details = details
      and c = localeCompare, OF entry ids d1] obtain st1 where
    run1: "updateRedirections localeCompare ovh domain st = (?r, st1)"
    and c1: "cache st1 = (cache st)(domain \<mapsto> ?e1)"
    and w1: "world st1 = world st" and wr1: "writable st1 = writable st"
    and f1: "disk st1 = (if writable st then Some (cache st1) else disk st)"
    by blast
  have entry1: "cache st1 domain = Some ?e1" using c1 by simp
  have ids1: "ovh (world st1) GET (redirection_path domain) = (Inr (IdList R), world st1)"
    using ids w1 by simp
  have "set (map r_id ?m) = set R" by (rule merged_id_set [OF d2])
  then have det1: "\<forall>i\<in>set R. i \<notin> r_id ` set (redirections ?e1) \<longrightarrow>
           ovh (world st1) GET (redirection_id_path domain (js_String i))
             = (Inr (Details (details i)), world st1)"
    by auto
  from updateRedirections_run [where ovh = ovh and st = st1 and details = details
      and c = localeCompare, OF entry1 ids1 det1] obtain st2 where
    run2: "updateRedirections localeCompare ovh domain st1
             = (if writable st1 then Inr () else Inl (ApiError ''EACCES: permission denied''), st2)"
    and c2: "cache st2 = (cache st1)(domain \<mapsto>
               ?e1\<lparr>redirections := merged_redirections localeCompare (redirections ?e1) R details\<rparr>)"
    and f2: "disk st2 = (if writable st1 then Some (cache st2) else disk st1)"
    and t2: "trace st2 = trace st1 @ run_trace domain (redirections ?e1) R
                           @ (if writable st1 then [WriteFile] else [])"
    by blast
  have again: "merged_redirections localeCompare ?m R details = ?m"
    by (rule merged_again [OF c d2])
  have "(cache st1)(domain \<mapsto> ?e1) = cache st1"
    using entry1 by (rule map_upd_triv)
  then have same: "cache st2 = cache st1"
    using c2 by (simp add: again)
  have "disk st2 = disk st1" using f1 f2 wr1 same by simp
  moreover have "trace st2 = trace st1
                @ [Request GET (redirection_path domain),
                   ConsoleLog (decimal (length (redirections ?e1)) @ '' remote redirection(s)''),
                   ConsoleLog ''0 new redirection(s)'',
                   ConsoleLog ''0 deleted redirection(s)'']
                @ (if writable st then [WriteFile] else [])"
    using t2 wr1 run_trace_again [OF d2, of domain localeCompare] by simp
  ultimately show ?thesis using run1 run2 wr1 entry1 same by auto
qed

theorem updateRedirections_twice_witness:
  "\<exists>r st1 st2 entry1.
     updateRedirections collate (provider ''x.com'') ''x.com''
       (process_state [redirection_of 2 ''b@x.com'' ''b@y.org'', redirection_of 3 ''c@x.com'' ''d@x.com'']
          [''x.com'' \<mapsto> \<lparr>redirections =
             [redirection_of 1 ''a@x.com'' ''b@y.org'', redirection_of 2 ''b@x.com'' ''b@y.org'']\<rparr>])
       = (r, st1)
     \<and> updateRedirections collate (provider ''x.com'') ''x.com'' st1 = (r, st2)
     \<and> cache st1 ''x.com'' = Some entry1
     \<and> cache st2 = cache st1 \<and> disk st2 = disk st1
     \<and> trace st2 = trace st1
          @ [Request GET (redirection_path ''x.com''),
             ConsoleLog (decimal (length (redirections entry1)) @ '' remote redirection(s)''),
             ConsoleLog ''0 new redirection(s)'',
             ConsoleLog ''0 deleted redirection(s)'']
          @ (if writable (process_state
                 [redirection_of 2 ''b@x.com'' ''b@y.org'', redirection_of 3 ''c@x.com'' ''d@x.com'']
                 [''x.com'' \<mapsto> \<lparr>redirections =
                    [redirection_of 1 ''a@x.com'' ''b@y.org'', redirection_of 2 ''b@x.com'' ''b@y.org'']\<rparr>])
             then [WriteFile] else [])"
  by (rule updateRedirections_twice [OF consistent_collate,
        where R = "[IdNum 2, IdNum 3]"
        and entry = "\<lparr>redirections =
             [redirection_of 1 ''a@x.com'' ''b@y.org'', redirection_of 2 ''b@x.com'' ''b@y.org'']\<rparr>"])
     (simp_all add: provider_def redirection_of_def process_state_def redirection_path_def
        redirection_id_path_def number_text_def decimal.simps digit_def)

section \<open>Order, isolation and reported counts\<close>

lemma kept_filter_sorted:
  "filter (\<lambda>r. r_id r \<notin> set (filter (\<lambda>i. i \<notin> set R) (map r_id old))) (js_sort c old)
     = filter (\<lambda>r. r_id r \<in> set R) (js_sort c old)"
  by (rule filter_cong) auto

lemma kept_filter_sorted':
  "filter (\<lambda>r. r_id r \<in> r_id ` set old \<longrightarrow> r_id r \<in> set R) (js_sort c old)
     = filter (\<lambda>r. r_id r \<in> set R) (js_sort c old)"
  by (rule filter_cong) auto

lemma updateRedirections_first_run:
  assumes ids: "ovh (world st) GET (redirection_path domain) = (Inr (IdList R), world st)"
    and det: "\<forall>i\<in>set R. i \<notin> r_id ` set (redirections (cache st)) \<longrightarrow>
                ovh (world st) GET (redirection_id_path domain (js_String i))
                  = (Inr (Details (details i)), world st)"
  shows "\<exists>st'. updateRedirections_first c ovh domain st
                 = (if writable st then Inr () else Inl (ApiError ''EACCES: permission denied''), st')
           \<and> redirections (cache st')
               = filter (\<lambda>r. r_id r \<in> set R)
                   (js_sort (\<lambda>x y. c (r_from x) (r_from y)) (redirections (cache st)))
                 @ map details (filter (\<lambda>i. i \<notin> r_id ` set (redirections (cache st))) R)
           \<and> disk st' = (if writable st then Some (cache st') else disk st)"
proof -
  let ?st1 = "emit (Request GET (redirection_path domain)) st"
  let ?new = "filter (\<lambda>i. i \<notin> r_id ` set (redirections (cache st))) R"
  have req: "ovhRequest ovh GET (redirection_path domain) st = (Inr (IdList R), ?st1)"
    using ids by (rule ovhRequest_read)
  have "\<forall>i\<in>set ?new. ovh (world ?st1) GET (redirection_id_path domain (js_String i))
              = (Inr (Details (details i)), world ?st1)"
    using det by simp
  then have "\<exists>st'. fetch_details ovh domain ?new [] ?st1 = (Inr ([] @ map details ?new), st')
           \<and> world st' = world ?st1 \<and> cache st' = cache ?st1 \<and> disk st' = disk ?st1
           \<and> writable st' = writable ?st1
           \<and> trace st' = trace ?st1
                @ map (\<lambda>i. Request GET (redirection_id_path domain (js_String i))) ?new"
    by (rule fetch_details_reads)
  then obtain st2 where
    fd: "fetch_details ovh domain ?new [] ?st1 = (Inr (map details ?new), st2)"
    and st2: "cache st2 = cache st" "disk st2 = disk st" "writable st2 = writable st"
    by auto
  show ?thesis
    using req fd st2
    by (simp add: updateRedirections_first_def Let_def writeFile_def emit_def
          kept_filter_sorted kept_filter_sorted')
qed

text \<open>
  C3 (amended). For a consistent \<^verbatim>\<open>localeCompare\<close>, after a successful run of the
  current \<open>updateRedirections\<close> (merge, then sort) the active domain's sequence, in
  the cache and in the file, is sorted ascending by \<open>from\<close> in the order of that
  comparator, whatever the order of the prior sequence and of the fetched records. After
  a successful run of the first version (\<open>updateRedirections_first\<close>: sort, then
  append) the records that carry an identifier of the prior sequence are in that order
  among themselves.
\<close>

theorem updateRedirections_sorted_by_localeCompare:
  assumes c: "consistent localeCompare"
    and entry: "cache st domain = Some entry"
    and disk_ok: "writable st"
    and ids: "ovh (world st) GET (redirection_path domain) = (Inr (IdList R), world st)"
    and det: "\<forall>i\<in>set R. i \<notin> r_id ` set (redirections entry) \<longrightarrow>
                (\<exists>d. ovh (world st) GET (redirection_id_path domain (js_String i))
                        = (Inr (Details d), world st))"
    and first_disk_ok: "writable first_st"
    and first_ids: "first_ovh (world first_st) GET (redirection_path domain) = (Inr (IdList Q), world first_st)"
    and first_det: "\<forall>i\<in>set Q. i \<notin> r_id ` set (redirections (cache first_st)) \<longrightarrow>
                (\<exists>d. first_ovh (world first_st) GET (redirection_id_path domain (js_String i))
                        = (Inr (Details d), world first_st) \<and> r_id d = i)"
  shows "(\<exists>st' entry'. updateRedirections localeCompare ovh domain st = (Inr (), st')
           \<and> disk st' = Some (cache st') \<and> cache st' domain = Some entry'
           \<and> sorted_wrt (\<lambda>x y. localeCompare (r_from x) (r_from y) \<le> 0)
                (redirections entry'))
       \<and> (\<exists>st'. updateRedirections_first localeCompare first_ovh domain first_st = (Inr (), st')
           \<and> disk st' = Some (cache st')
           \<and> sorted_wrt (\<lambda>x y. localeCompare (r_from x) (r_from y) \<le> 0)
                (filter (\<lambda>r. r_id r \<in> r_id ` set (redirections (cache first_st)))
                   (redirections (cache st'))))"
proof
  from det obtain details where
    d1: "\<forall>i\<in>set R. i \<notin> r_id ` set (redirections entry) \<longrightarrow>
           ovh (world st) GET (redirection_id_path domain (js_String i))
             = (Inr (Details (details i)), world st)"
    by metis
  let ?m = "merged_redirections localeCompare (redirections entry) R details"
  from updateRedirections_run [where ovh = ovh and st = st and details = details
      and c = localeCompare, OF entry ids d1] disk_ok obtain st' where
    "updateRedirections localeCompare ovh domain st = (Inr (), st')"
    "cache st' = (cache st)(domain \<mapsto> entry\<lparr>redirections := ?m\<rparr>)"
    "disk st' = Some (cache st')"
    by auto
  moreover have "sorted_wrt (\<lambda>x y. localeCompare (r_from x) (r_from y) \<le> 0) ?m"
    by (rule sorted_merged [OF c])
  ultimately show "\<exists>st' entry'. updateRedirections localeCompare ovh domain st = (Inr (), st')
           \<and> disk st' = Some (cache st') \<and> cache st' domain = Some entry'
           \<and> sorted_wrt (\<lambda>x y. localeCompare (r_from x) (r_from y) \<le> 0)
                (redirections entry')"
    by simp
next
  let ?old = "redirections (cache first_st)"
  let ?le = "\<lambda>x y. localeCompare (r_from x) (r_from y) \<le> 0"
  from first_det obtain details where
    d: "\<forall>i\<in>set Q. i \<notin> r_id ` set ?old \<longrightarrow>
           first_ovh (world first_st) GET (redirection_id_path domain (js_String i))
             = (Inr (Details (details i)), world first_st) \<and> r_id (details i) = i"
    by metis
  then have d1: "\<forall>i\<in>set Q. i \<notin> r_id ` set ?old \<longrightarrow>
           first_ovh (world first_st) GET (redirection_id_path domain (js_String i))
             = (Inr (Details (details i)), world first_st)"
    and d2: "\<forall>i\<in>set Q. i \<notin> r_id ` set ?old \<longrightarrow> r_id (details i) = i"
    by blast+
  let ?sorted = "js_sort (\<lambda>x y. localeCompare (r_from x) (r_from y)) ?old"
  let ?new = "filter (\<lambda>i. i \<notin> r_id ` set ?old) Q"
  from updateRedirections_first_run [where ovh = first_ovh and st = first_st and details = details
      and c = localeCompare, OF first_ids d1] first_disk_ok obtain st' where
    run: "updateRedirections_first localeCompare first_ovh domain first_st = (Inr (), st')"
    and res: "redirections (cache st')
               = filter (\<lambda>r. r_id r \<in> set Q) ?sorted @ map details ?new"
    and saved: "disk st' = Some (cache st')"
    by auto
  have "filter (\<lambda>r. r_id r \<in> r_id ` set ?old) (map details ?new) = []"
    using d2 by (auto simp: filter_empty_conv)
  then have "filter (\<lambda>r. r_id r \<in> r_id ` set ?old) (redirections (cache st'))
      = filter (\<lambda>r. r_id r \<in> r_id ` set ?old) (filter (\<lambda>r. r_id r \<in> set Q) ?sorted)"
    using res by simp
  moreover have "sorted_wrt ?le ?sorted"
    by (rule sorted_js_sort) (rule consistent_on_field [OF c])
  then have "sorted_wrt ?le
      (filter (\<lambda>r. r_id r \<in> r_id ` set ?old) (filter (\<lambda>r. r_id r \<in> set Q) ?sorted))"
    by (intro sorted_wrt_filter)
  ultimately show "\<exists>st'. updateRedirections_first localeCompare first_ovh domain first_st = (Inr (), st')
           \<and> disk st' = Some (cache st')
           \<and> sorted_wrt ?le
                (filter (\<lambda>r. r_id r \<in> r_id ` set (redirections (cache first_st)))
                   (redirections (cache st')))"
    using run saved by simp
qed

theorem updateRedirections_sorted_by_localeCompare_witness:
  "(\<exists>st' entry'.
     updateRedirections collate (provider ''x.com'') ''x.com''
       (process_state [redirection_of 1 ''B@x.com'' ''t@y.org'', redirection_of 2 ''a@x.com'' ''t@y.org'']
          [''x.com'' \<mapsto> \<lparr>redirections = []\<rparr>])
       = (Inr (), st')
     \<and> disk st' = Some (cache st') \<and> cache st' ''x.com'' = Some entry'
     \<and> sorted_wrt (\<lambda>x y. collate (r_from x) (r_from y) \<le> 0) (redirections entry'))
   \<and> (\<exists>st'.
     updateRedirections_first collate (provider ''x.com'') ''x.com''
       (process_state
          [redirection_of 1 ''c@x.com'' ''t@y.org'', redirection_of 2 ''B@x.com'' ''t@y.org'',
           redirection_of 3 ''a@x.com'' ''t@y.org'']
          \<lparr>redirections =
             [redirection_of 1 ''c@x.com'' ''t@y.org'', redirection_of 2 ''B@x.com'' ''t@y.org'']\<rparr>)
       = (Inr (), st')
     \<and> disk st' = Some (cache st')
     \<and> sorted_wrt (\<lambda>x y. collate (r_from x) (r_from y) \<le> 0)
          (filter (\<lambda>r. r_id r \<in> r_id ` set (redirections (cache (process_state
             [redirection_of 1 ''c@x.com'' ''t@y.org'', redirection_of 2 ''B@x.com'' ''t@y.org'',
              redirection_of 3 ''a@x.com'' ''t@y.org'']
             \<lparr>redirections =
                [redirection_of 1 ''c@x.com'' ''t@y.org'',
                 redirection_of 2 ''B@x.com'' ''t@y.org'']\<rparr>))))
             (redirections (cache st'))))"
  by (rule updateRedirections_sorted_by_localeCompare [OF consistent_collate,
        where R = "[IdNum 1, IdNum 2]" and entry = "\<lparr>redirections = []\<rparr>"
          and Q = "[IdNum 1, IdNum 2, IdNum 3]"])
     (simp_all add: provider_def redirection_of_def process_state_def redirection_path_def
        redirection_id_path_def number_text_def decimal.simps digit_def)

text \<open>
  C3 as stated fails. With the prior sequence empty and the provider holding
  \<^verbatim>\<open>b@x.com\<close>, \<^verbatim>\<open>a@x.com\<close> and \<^verbatim>\<open>B@x.com\<close>, the current version stores
  \<^verbatim>\<open>a@x.com\<close>, \<^verbatim>\<open>b@x.com\<close>, \<^verbatim>\<open>B@x.com\<close>, which is not ascending in ordinal
  (code unit) order, where \<^verbatim>\<open>B\<close> precedes \<^verbatim>\<open>a\<close>. The first version stores the
  three records in the order they were fetched, which is ascending in neither order.
\<close>

theorem updateRedirections_not_ordinal:
  "redirections (the (cache (snd
      (updateRedirections collate (provider ''x.com'') ''x.com''
        (process_state
           [redirection_of 1 ''b@x.com'' ''t@y.org'', redirection_of 2 ''a@x.com'' ''t@y.org'',
            redirection_of 3 ''B@x.com'' ''t@y.org'']
           [''x.com'' \<mapsto> \<lparr>redirections = []\<rparr>]))) ''x.com''))
     = [redirection_of 2 ''a@x.com'' ''t@y.org'', redirection_of 1 ''b@x.com'' ''t@y.org'',
        redirection_of 3 ''B@x.com'' ''t@y.org'']
   \<and> \<not> sorted_wrt (\<lambda>x y. ordinal_le (r_from x) (r_from y))
        (redirections (the (cache (snd
          (updateRedirections collate (provider ''x.com'') ''x.com''
            (process_state
               [redirection_of 1 ''b@x.com'' ''t@y.org'', redirection_of 2 ''a@x.com'' ''t@y.org'',
                redirection_of 3 ''B@x.com'' ''t@y.org'']
               [''x.com'' \<mapsto> \<lparr>redirections = []\<rparr>]))) ''x.com'')))
   \<and> redirections (cache (snd
      (updateRedirections_first collate (provider ''x.com'') ''x.com''
        (process_state
           [redirection_of 1 ''b@x.com'' ''t@y.org'', redirection_of 2 ''a@x.com'' ''t@y.org'',
            redirection_of 3 ''B@x.com'' ''t@y.org'']
           \<lparr>redirections = []\<rparr>))))
     = [redirection_of 1 ''b@x.com'' ''t@y.org'', redirection_of 2 ''a@x.com'' ''t@y.org'',
        redirection_of 3 ''B@x.com'' ''t@y.org'']
   \<and> \<not> sorted_wrt (\<lambda>x y. ordinal_le (r_from x) (r_from y))
        (redirections (cache (snd
          (updateRedirections_first collate (provider ''x.com'') ''x.com''
            (process_state
               [redirection_of 1 ''b@x.com'' ''t@y.org'', redirection_of 2 ''a@x.com'' ''t@y.org'',
                redirection_of 3 ''B@x.com'' ''t@y.org'']
               \<lparr>redirections = []\<rparr>)))))"
  by (simp add: run_defs updateRedirections_first_def)

text \<open>
  C6. Whatever the provider answers, a run of \<open>updateRedirections\<close> for the active
  domain leaves the cache entry of every other domain as it was; the file is either
  untouched or holds the complete cache. When the cache was loaded from the file, the
  file's entry for every other domain after the run is its entry before the run.
\<close>

theorem updateRedirections_other_domains:
  assumes "d \<noteq> domain"
  shows "cache (snd (updateRedirections localeCompare ovh domain st)) d = cache st d
       \<and> (disk (snd (updateRedirections localeCompare ovh domain st)) = disk st
          \<or> disk (snd (updateRedirections localeCompare ovh domain st))
               = Some (cache (snd (updateRedirections localeCompare ovh domain st))))
       \<and> (disk st = Some parsed \<and> cache st = load_cache domain (Inr parsed) \<longrightarrow>
            (\<exists>saved. disk (snd (updateRedirections localeCompare ovh domain st)) = Some saved
                     \<and> saved d = parsed d))"
proof -
  obtain r st' where run: "updateRedirections localeCompare ovh domain st = (r, st')"
    by (cases "updateRedirections localeCompare ovh domain st")
  from updateRedirections_frame [OF run] assms
  have keep: "cache st' d = cache st d"
    and saved: "disk st' = disk st \<or> disk st' = Some (cache st')"
    by blast+
  have "disk st = Some parsed \<and> cache st = load_cache domain (Inr parsed) \<longrightarrow>
          (\<exists>saved. disk st' = Some saved \<and> saved d = parsed d)"
    using keep saved load_cache_other [OF assms, of parsed] by auto
  with keep saved run show ?thesis by simp
qed

theorem updateRedirections_other_domains_witness:
  "cache (snd (updateRedirections collate (provider ''x.com'') ''x.com''
      (process_state [redirection_of 3 ''c@x.com'' ''d@x.com'']
         [''x.com'' \<mapsto> \<lparr>redirections = [redirection_of 1 ''a@x.com'' ''b@y.org'']\<rparr>,
          ''other.org'' \<mapsto> \<lparr>redirections = [redirection_of 7 ''z@other.org'' ''b@y.org'']\<rparr>])))
     ''other.org''
     = Some \<lparr>redirections = [redirection_of 7 ''z@other.org'' ''b@y.org'']\<rparr>
   \<and> (\<exists>saved. disk (snd (updateRedirections collate (provider ''x.com'') ''x.com''
      (process_state [redirection_of 3 ''c@x.com'' ''d@x.com'']
         [''x.com'' \<mapsto> \<lparr>redirections = [redirection_of 1 ''a@x.com'' ''b@y.org'']\<rparr>,
          ''other.org'' \<mapsto> \<lparr>redirections = [redirection_of 7 ''z@other.org'' ''b@y.org'']\<rparr>])))
        = Some saved
      \<and> saved ''other.org'' = Some \<lparr>redirections = [redirection_of 7 ''z@other.org'' ''b@y.org'']\<rparr>)"
  using updateRedirections_other_domains
    [of "''other.org''" "''x.com''" collate "provider ''x.com''"
        "process_state [redirection_of 3 ''c@x.com'' ''d@x.com'']
         [''x.com'' \<mapsto> \<lparr>redirections = [redirection_of 1 ''a@x.com'' ''b@y.org'']\<rparr>,
          ''other.org'' \<mapsto> \<lparr>redirections = [redirection_of 7 ''z@other.org'' ''b@y.org'']\<rparr>]"
        "[''x.com'' \<mapsto> \<lparr>redirections = [redirection_of 1 ''a@x.com'' ''b@y.org'']\<rparr>,
          ''other.org'' \<mapsto> \<lparr>redirections = [redirection_of 7 ''z@other.org'' ''b@y.org'']\<rparr>]"]
  by (simp add: process_state_def load_cache_def)

text \<open>
  C2. The first count a run prints, under the label \<^verbatim>\<open>remote redirection(s)\<close>, is the
  length of the prior local sequence, not the size of the remote identifier list: with
  one local record and three remote identifiers the run prints 1, 2 and 0. On the
  scenario of the specification (local 1 and 2, remote 2 and 3) the two lengths are both
  2 and the run prints 2, 1 and 1.
\<close>

theorem updateRedirections_reports_local_count:
  "trace (snd (updateRedirections collate (provider ''x.com'') ''x.com''
       (process_state
          [redirection_of 1 ''a@x.com'' ''b@y.org'', redirection_of 2 ''b@x.com'' ''b@y.org'',
           redirection_of 3 ''c@x.com'' ''d@x.com'']
          [''x.com'' \<mapsto> \<lparr>redirections = [redirection_of 1 ''a@x.com'' ''b@y.org'']\<rparr>])))
   = [Request GET ''/email/domain/x.com/redirection'',
      Request GET ''/email/domain/x.com/redirection/2'',
      Request GET ''/email/domain/x.com/redirection/3'',
      ConsoleLog ''1 remote redirection(s)'',
      ConsoleLog ''2 new redirection(s)'',
      ConsoleLog ''0 deleted redirection(s)'',
      WriteFile]
   \<and> trace (snd (updateRedirections collate (provider ''x.com'') ''x.com''
       (process_state
          [redirection_of 2 ''b@x.com'' ''b@y.org'', redirection_of 3 ''c@x.com'' ''d@x.com'']
          [''x.com'' \<mapsto> \<lparr>redirections =
             [redirection_of 1 ''a@x.com'' ''b@y.org'', redirection_of 2 ''b@x.com'' ''b@y.org'']\<rparr>])))
   = [Request GET ''/email/domain/x.com/redirection'',
      Request GET ''/email/domain/x.com/redirection/3'',
      ConsoleLog ''2 remote redirection(s)'',
      ConsoleLog ''1 new redirection(s)'',
      ConsoleLog ''1 deleted redirection(s)'',
      WriteFile]"
  by (simp add: run_defs)

section \<open>Filtering and sorting the snapshot\<close>

lemma js_includes_sublist: "js_includes s q \<longleftrightarrow> sublist q s"
  by (induction s) (auto simp: sublist_Cons_right)

lemma filter_by_query_strings:
  assumes "\<forall>r\<in>set rs. \<exists>i. r_id r = IdStr i"
  shows "filter_by_query query rs
           = Inr (filter (\<lambda>r. sublist query (toLowerCase (js_String (r_id r)))
                              \<or> sublist query (toLowerCase (r_from r))
                              \<or> sublist query (toLowerCase (r_to r))) rs)"
  using assms
proof (induction rs)
  case Nil
  then show ?case by simp
next
  case (Cons r rs)
  then obtain i where i: "r_id r = IdStr i" by auto
  from Cons have "filter_by_query query rs
           = Inr (filter (\<lambda>r. sublist query (toLowerCase (js_String (r_id r)))
                              \<or> sublist query (toLowerCase (r_from r))
                              \<or> sublist query (toLowerCase (r_to r))) rs)"
    by simp
  then show ?case using i by (simp add: js_includes_sublist)
qed

lemma filter_by_query_number:
  assumes "\<exists>r\<in>set rs. \<exists>n. r_id r = IdNum n"
  shows "filter_by_query query rs = Inl (TypeError ''id.toLowerCase is not a function'')"
  using assms
proof (induction rs)
  case Nil
  then show ?case by simp
next
  case (Cons r rs)
  show ?case
  proof (cases "r_id r")
    case (IdNum n)
    then show ?thesis by simp
  next
    case (IdStr i)
    with Cons.prems have "\<exists>r\<in>set rs. \<exists>n. r_id r = IdNum n" by auto
    then have "filter_by_query query rs = Inl (TypeError ''id.toLowerCase is not a function'')"
      by (rule Cons.IH)
    with IdStr show ?thesis by simp
  qed
qed

lemma toLowerCase_empty [simp]: "toLowerCase s = [] \<longleftrightarrow> s = []"
  by (simp add: toLowerCase_def)

lemma filterRedirections_string_ids:
  assumes "\<forall>r\<in>set rs. \<exists>i. r_id r = IdStr i"
  shows "filterRedirections rs None = Inr rs"
    and "filterRedirections rs (Some []) = Inr rs"
    and "q \<noteq> [] \<Longrightarrow> filterRedirections rs (Some q)
           = Inr (filter (\<lambda>r. sublist (toLowerCase q) (toLowerCase (js_String (r_id r)))
                              \<or> sublist (toLowerCase q) (toLowerCase (r_from r))
                              \<or> sublist (toLowerCase q) (toLowerCase (r_to r))) rs)"
  using filter_by_query_strings [OF assms] by (simp_all add: filterRedirections_def)

text \<open>
  C7. For a list that holds a record whose \<open>id\<close> is a number, and a non-empty query,
  \<open>filterRedirections\<close> returns no list: it throws a TypeError, since a number has no
  \<^verbatim>\<open>toLowerCase\<close>. (For string identifiers it returns the matching records, and an
  empty or absent query returns the list as it is: \<open>filterRedirections_string_ids\<close>.)
\<close>

theorem filterRedirections_number_id_throws:
  assumes "r \<in> set rs" and "r_id r = IdNum n" and "q \<noteq> []"
  shows "filterRedirections rs (Some q) = Inl (TypeError ''id.toLowerCase is not a function'')"
proof -
  from assms(1,2) have "\<exists>r\<in>set rs. \<exists>n. r_id r = IdNum n" by blast
  then show ?thesis using assms(3) by (simp add: filterRedirections_def filter_by_query_number)
qed

theorem filterRedirections_number_id_throws_witness:
  "filterRedirections [\<lparr>r_id = IdNum 3, r_from = ''c@x.com'', r_to = ''d@x.com''\<rparr>] (Some ''c'')
     = Inl (TypeError ''id.toLowerCase is not a function'')"
  using filterRedirections_number_id_throws
    [of "\<lparr>r_id = IdNum 3, r_from = ''c@x.com'', r_to = ''d@x.com''\<rparr>"
        "[\<lparr>r_id = IdNum 3, r_from = ''c@x.com'', r_to = ''d@x.com''\<rparr>]" 3 "''c''"]
  by simp

lemma filter_insert_by_other:
  "\<not> P x \<Longrightarrow> filter P (insert_by c x ys) = filter P ys"
  by (induction ys) auto

lemma filter_insert_by_class:
  assumes c: "consistent c" and x: "c x k \<le> 0" "c k x \<le> 0"
  shows "filter (\<lambda>y. c y k \<le> 0 \<and> c k y \<le> 0) (insert_by c x ys)
           = x # filter (\<lambda>y. c y k \<le> 0 \<and> c k y \<le> 0) ys"
proof (induction ys)
  case Nil
  then show ?case using x by simp
next
  case (Cons y ys)
  show ?case
  proof (cases "c x y \<le> 0")
    case True
    then show ?thesis using x by simp
  next
    case False
    have "\<not> (c y k \<le> 0 \<and> c k y \<le> 0)"
    proof
      assume "c y k \<le> 0 \<and> c k y \<le> 0"
      then have "c x y \<le> 0" using x(1) consistentD_trans [OF c] by blast
      with False show False by simp
    qed
    with False Cons show ?thesis by auto
  qed
qed

lemma js_sort_stable:
  assumes "consistent c"
  shows "filter (\<lambda>y. c y k \<le> 0 \<and> c k y \<le> 0) (js_sort c xs)
           = filter (\<lambda>y. c y k \<le> 0 \<and> c k y \<le> 0) xs"
proof (induction xs)
  case Nil
  then show ?case by simp
next
  case (Cons x xs)
  show ?case
  proof (cases "c x k \<le> 0 \<and> c k x \<le> 0")
    case True
    then show ?thesis
      using Cons filter_insert_by_class [OF assms, of x k "js_sort c xs"]
      by (simp add: js_sort_Cons)
  next
    case False
    then show ?thesis
      using Cons filter_insert_by_other [of "\<lambda>y. c y k \<le> 0 \<and> c k y \<le> 0" x c "js_sort c xs"]
      by (simp add: js_sort_Cons)
  qed
qed

lemma sort_column_fallback:
  "col \<notin> set [''from'', ''to'', ''id''] \<Longrightarrow> sort_column (Some col) = sort_column (Some ''from'')"
  by (simp add: sort_column_def)

text \<open>
  C8 (amended). For a consistent \<^verbatim>\<open>localeCompare\<close>, the ascending result of
  \<open>sortRedirections\<close> is a stable sort of the input by the text of the chosen column:
  it is ordered, it holds the same records, and the records that compare equal to any
  given record keep their input order. The descending result is the reverse of the
  ascending one. A column name other than \<open>from\<close>, \<open>to\<close> and \<open>id\<close> sorts as
  \<open>from\<close>.
\<close>

theorem sortRedirections_stable_and_reversed:
  assumes "consistent localeCompare"
  shows "sorted_wrt (\<lambda>a b. localeCompare (column_text (sort_column sortBy) a)
                                      (column_text (sort_column sortBy) b) \<le> 0)
           (sortRedirections localeCompare rs sortBy (Some ''asc''))
       \<and> mset (sortRedirections localeCompare rs sortBy (Some ''asc'')) = mset rs
       \<and> (\<forall>k. filter (\<lambda>r. localeCompare (column_text (sort_column sortBy) r)
                                         (column_text (sort_column sortBy) k) \<le> 0
                           \<and> localeCompare (column_text (sort_column sortBy) k)
                                           (column_text (sort_column sortBy) r) \<le> 0)
                  (sortRedirections localeCompare rs sortBy (Some ''asc''))
              = filter (\<lambda>r. localeCompare (column_text (sort_column sortBy) r)
                                           (column_text (sort_column sortBy) k) \<le> 0
                             \<and> localeCompare (column_text (sort_column sortBy) k)
                                             (column_text (sort_column sortBy) r) \<le> 0) rs)
       \<and> sortRedirections localeCompare rs sortBy (Some ''desc'')
           = rev (sortRedirections localeCompare rs sortBy (Some ''asc''))
       \<and> (\<forall>col. col \<notin> set [''from'', ''to'', ''id''] \<longrightarrow>
             sortRedirections localeCompare rs (Some col) order
               = sortRedirections localeCompare rs (Some ''from'') order)"
proof -
  let ?key = "column_text (sort_column sortBy)"
  let ?c = "\<lambda>a b. localeCompare (?key a) (?key b)"
  have c: "consistent ?c" using assms by (rule consistent_on_field)
  have asc: "sortRedirections localeCompare rs sortBy (Some ''asc'') = js_sort ?c rs"
    by (simp add: sortRedirections_def Let_def)
  have desc: "sortRedirections localeCompare rs sortBy (Some ''desc'') = rev (js_sort ?c rs)"
    by (simp add: sortRedirections_def Let_def)
  have "sorted_wrt (\<lambda>a b. ?c a b \<le> 0) (js_sort ?c rs)" using c by (rule sorted_js_sort)
  moreover have "\<forall>k. filter (\<lambda>r. ?c r k \<le> 0 \<and> ?c k r \<le> 0) (js_sort ?c rs)
                    = filter (\<lambda>r. ?c r k \<le> 0 \<and> ?c k r \<le> 0) rs"
    using js_sort_stable [OF c] by blast
  moreover have "\<forall>col. col \<notin> set [''from'', ''to'', ''id''] \<longrightarrow>
             sortRedirections localeCompare rs (Some col) order
               = sortRedirections localeCompare rs (Some ''from'') order"
    using sort_column_fallback by (simp add: sortRedirections_def Let_def)
  ultimately show ?thesis unfolding asc desc by simp
qed

lemmas sort_defs = sortRedirections_def sort_column_def column_text_def js_sort_def collate_def
  base_weight_def case_weight_def is_upper_def redirection_of_def number_text_def decimal.simps digit_def
  Let_def

theorem sortRedirections_stable_and_reversed_witness:
  "sortRedirections collate
     [redirection_of 1 ''b@x.com'' ''spam@x.com'', redirection_of 2 ''c@x.com'' ''me@y.org'',
      redirection_of 3 ''a@x.com'' ''spam@x.com''] (Some ''to'') (Some ''asc'')
     = [redirection_of 2 ''c@x.com'' ''me@y.org'', redirection_of 1 ''b@x.com'' ''spam@x.com'',
        redirection_of 3 ''a@x.com'' ''spam@x.com'']
   \<and> sortRedirections collate
     [redirection_of 1 ''b@x.com'' ''spam@x.com'', redirection_of 2 ''c@x.com'' ''me@y.org'',
      redirection_of 3 ''a@x.com'' ''spam@x.com''] (Some ''to'') (Some ''desc'')
     = rev (sortRedirections collate
     [redirection_of 1 ''b@x.com'' ''spam@x.com'', redirection_of 2 ''c@x.com'' ''me@y.org'',
      redirection_of 3 ''a@x.com'' ''spam@x.com''] (Some ''to'') (Some ''asc''))
   \<and> sortRedirections collate
     [redirection_of 1 ''b@x.com'' ''spam@x.com'', redirection_of 2 ''c@x.com'' ''me@y.org'',
      redirection_of 3 ''a@x.com'' ''spam@x.com''] (Some ''date'') (Some ''asc'')
     = sortRedirections collate
     [redirection_of 1 ''b@x.com'' ''spam@x.com'', redirection_of 2 ''c@x.com'' ''me@y.org'',
      redirection_of 3 ''a@x.com'' ''spam@x.com''] (Some ''from'') (Some ''asc'')"
  using sortRedirections_stable_and_reversed [OF consistent_collate,
    of "Some ''to''" "[redirection_of 1 ''b@x.com'' ''spam@x.com'', redirection_of 2 ''c@x.com'' ''me@y.org'',
      redirection_of 3 ''a@x.com'' ''spam@x.com'']" "Some ''asc''"]
  by (simp add: sort_defs)

text \<open>
  C8 as stated fails for the descending direction: two records with the same \<open>to\<close>
  come out in the reverse of their input order.
\<close>

theorem sortRedirections_desc_reverses_equal_keys:
  "sortRedirections collate
     [redirection_of 1 ''b@x.com'' ''spam@x.com'', redirection_of 2 ''a@x.com'' ''spam@x.com'']
     (Some ''to'') (Some ''desc'')
     = [redirection_of 2 ''a@x.com'' ''spam@x.com'', redirection_of 1 ''b@x.com'' ''spam@x.com'']"
  by (simp add: sort_defs)

section \<open>Masking secrets\<close>

lemma split_at_not_Nil [simp]: "split_at sep piece s \<noteq> []"
  by (induction sep piece s rule: split_at.induct) auto

lemma join_Cons: "ps \<noteq> [] \<Longrightarrow> join glue (p # ps) = p @ glue @ join glue ps"
  by (cases ps) auto

lemma join_split_at_piece:
  "join glue (split_at sep piece s) = piece @ join glue (split_at sep [] s)"
proof (induction "length s" arbitrary: s piece rule: less_induct)
  case less
  show ?case
  proof (cases s)
    case Nil
    then show ?thesis by simp
  next
    case (Cons c cs)
    show ?thesis
    proof (cases "sep \<noteq> [] \<and> prefix sep (c # cs)")
      case True
      then show ?thesis using Cons by (simp add: join_Cons)
    next
      case False
      have "join glue (split_at sep (piece @ [c]) cs)
              = (piece @ [c]) @ join glue (split_at sep [] cs)"
        using less [of cs "piece @ [c]"] Cons by simp
      moreover have "join glue (split_at sep [c] cs) = [c] @ join glue (split_at sep [] cs)"
        using less [of cs "[c]"] Cons by simp
      moreover have "split_at sep q (c # cs) = split_at sep (q @ [c]) cs" for q
        using False by auto
      ultimately show ?thesis using Cons by simp
    qed
  qed
qed

lemma masked_Nil: "join glue (js_split [] sep) = []"
  by (simp add: js_split_def)

lemma masked_match:
  "sep \<noteq> [] \<Longrightarrow> prefix sep (c # cs) \<Longrightarrow>
     join glue (js_split (c # cs) sep) = glue @ join glue (js_split (drop (length sep) (c # cs)) sep)"
  by (simp add: js_split_def join_Cons)

lemma masked_step:
  "\<not> (sep \<noteq> [] \<and> prefix sep (c # cs)) \<Longrightarrow>
     join glue (js_split (c # cs) sep) = c # join glue (js_split cs sep)"
proof -
  assume "\<not> (sep \<noteq> [] \<and> prefix sep (c # cs))"
  then have "split_at sep [] (c # cs) = split_at sep [c] cs" by auto
  then show ?thesis
    using join_split_at_piece [of glue sep "[c]" cs] by (simp add: js_split_def)
qed

lemma prefix_before_absent:
  assumes "prefix p (a @ x # b)" "x \<notin> set p"
  shows "prefix p a"
proof -
  from assms(1) have "prefix p a \<or> (\<exists>us. p = a @ us \<and> prefix us (x # b))"
    by (simp add: prefix_append)
  then show ?thesis
  proof
    assume "prefix p a"
    then show ?thesis .
  next
    assume "\<exists>us. p = a @ us \<and> prefix us (x # b)"
    then obtain us where us: "p = a @ us" "prefix us (x # b)" by blast
    have "us = []"
    proof (cases us)
      case Nil
      then show ?thesis .
    next
      case (Cons u us')
      with us(2) have "u = x" by simp
      with Cons us(1) assms(2) show ?thesis by simp
    qed
    with us(1) show ?thesis by simp
  qed
qed

lemma sublist_around_absent:
  assumes "sublist p (a @ x # b)" "x \<notin> set p"
  shows "sublist p a \<or> sublist p b"
  using assms(1)
proof (induction a)
  case Nil
  then have "prefix p (x # b) \<or> sublist p b" by (simp add: sublist_Cons_right)
  then show ?case
  proof
    assume "prefix p (x # b)"
    then have "prefix p []" using prefix_before_absent [of p "[]" x b] assms(2) by simp
    then show ?thesis by simp
  next
    assume "sublist p b"
    then show ?thesis by simp
  qed
next
  case (Cons y a)
  from Cons.prems have "prefix p ((y # a) @ x # b) \<or> sublist p (a @ x # b)"
    by (simp add: sublist_Cons_right)
  then show ?case
  proof
    assume "prefix p ((y # a) @ x # b)"
    then have "prefix p (y # a)" using assms(2) by (rule prefix_before_absent)
    then show ?thesis by (auto intro: prefix_imp_sublist)
  next
    assume "sublist p (a @ x # b)"
    then have "sublist p a \<or> sublist p b" by (rule Cons.IH)
    then show ?thesis by (auto simp: sublist_Cons_right)
  qed
qed

text \<open>
  A string without brackets that is no fragment of the word inside the replacement text
  cannot overlap an inserted \<^verbatim>\<open>[REDACTED]\<close>.
\<close>

lemma sublist_after_replacement:
  assumes "sublist p (''[REDACTED]'' @ m)"
    and "CHR ''['' \<notin> set p" "CHR '']'' \<notin> set p" "\<not> sublist p ''REDACTED''"
  shows "sublist p m"
proof -
  have "sublist p ([] @ CHR ''['' # (''REDACTED'' @ CHR '']'' # m))" using assms(1) by simp
  then have "sublist p [] \<or> sublist p (''REDACTED'' @ CHR '']'' # m)"
    using assms(2) by (rule sublist_around_absent)
  moreover have "\<not> sublist p []" using assms(4) by auto
  ultimately have "sublist p (''REDACTED'' @ CHR '']'' # m)" by blast
  then have "sublist p ''REDACTED'' \<or> sublist p m"
    using assms(3) by (rule sublist_around_absent)
  with assms(4) show ?thesis by blast
qed

lemma prefix_of_masked:
  "CHR ''['' \<notin> set p \<Longrightarrow> prefix p (join ''[REDACTED]'' (js_split s sep)) \<Longrightarrow> prefix p s"
proof (induction "length s" arbitrary: s p rule: less_induct)
  case less
  show ?case
  proof (cases s)
    case Nil
    with less.prems show ?thesis by (simp add: masked_Nil)
  next
    case (Cons c cs)
    show ?thesis
    proof (cases "sep \<noteq> [] \<and> prefix sep (c # cs)")
      case True
      then have "join ''[REDACTED]'' (js_split s sep)
          = [] @ CHR ''['' # (''REDACTED]'' @ join ''[REDACTED]''
               (js_split (drop (length sep) (c # cs)) sep))"
        using Cons masked_match [of sep c cs "''[REDACTED]''"] by simp
      with less.prems(2) have "prefix p []"
        using prefix_before_absent [OF _ less.prems(1)] by metis
      then show ?thesis by simp
    next
      case False
      then have m: "join ''[REDACTED]'' (js_split s sep) = c # join ''[REDACTED]'' (js_split cs sep)"
        using Cons masked_step [of sep c cs "''[REDACTED]''"] by simp
      show ?thesis
      proof (cases p)
        case Nil
        then show ?thesis by simp
      next
        case (Cons q qs)
        with m less.prems have "q = c" "prefix qs (join ''[REDACTED]'' (js_split cs sep))"
          "CHR ''['' \<notin> set qs" by auto
        then have "prefix qs cs" using less.hyps [of cs qs] \<open>s = c # cs\<close> by simp
        with \<open>q = c\<close> Cons \<open>s = c # cs\<close> show ?thesis by simp
      qed
    qed
  qed
qed

lemma sublist_of_masked:
  assumes "CHR ''['' \<notin> set p" "CHR '']'' \<notin> set p" "\<not> sublist p ''REDACTED''"
  shows "sublist p (join ''[REDACTED]'' (js_split s sep)) \<Longrightarrow> sublist p s"
proof (induction "length s" arbitrary: s rule: less_induct)
  case less
  show ?case
  proof (cases s)
    case Nil
    with less.prems show ?thesis by (simp add: masked_Nil)
  next
    case (Cons c cs)
    show ?thesis
    proof (cases "sep \<noteq> [] \<and> prefix sep (c # cs)")
      case True
      let ?rest = "drop (length sep) (c # cs)"
      from True have "join ''[REDACTED]'' (js_split s sep)
          = ''[REDACTED]'' @ join ''[REDACTED]'' (js_split ?rest sep)"
        using Cons masked_match [of sep c cs "''[REDACTED]''"] by simp
      with less.prems have "sublist p (join ''[REDACTED]'' (js_split ?rest sep))"
        using sublist_after_replacement [OF _ assms] by simp
      moreover have "length ?rest < length s" using True Cons by simp
      ultimately have "sublist p ?rest" using less.hyps by blast
      moreover have "sublist ?rest (c # cs)" by (rule sublist_drop)
      ultimately have "sublist p (c # cs)" by (rule sublist_order.order_trans)
      then show ?thesis using Cons by simp
    next
      case False
      then have m: "join ''[REDACTED]'' (js_split s sep) = c # join ''[REDACTED]'' (js_split cs sep)"
        using Cons masked_step [of sep c cs "''[REDACTED]''"] by simp
      with less.prems have "prefix p (join ''[REDACTED]'' (js_split s sep))
          \<or> sublist p (join ''[REDACTED]'' (js_split cs sep))"
        by (simp add: sublist_Cons_right)
      then show ?thesis
      proof
        assume "prefix p (join ''[REDACTED]'' (js_split s sep))"
        then have "prefix p s" using assms(1) prefix_of_masked by blast
        then show ?thesis by (rule prefix_imp_sublist)
      next
        assume "sublist p (join ''[REDACTED]'' (js_split cs sep))"
        then have "sublist p cs" using less.hyps [of cs] Cons by simp
        then show ?thesis using Cons by (simp add: sublist_Cons_right)
      qed
    qed
  qed
qed

lemma masked_has_no_secret:
  assumes "CHR ''['' \<notin> set sep" "CHR '']'' \<notin> set sep" "\<not> sublist sep ''REDACTED''"
  shows "\<not> sublist sep (join ''[REDACTED]'' (js_split s sep))"
proof (induction "length s" arbitrary: s rule: less_induct)
  case less
  have ne: "sep \<noteq> []" using assms(3) by auto
  show ?case
  proof (cases s)
    case Nil
    then show ?thesis using ne by (simp add: masked_Nil)
  next
    case (Cons c cs)
    show ?thesis
    proof (cases "prefix sep (c # cs)")
      case True
      let ?rest = "drop (length sep) (c # cs)"
      from True ne have m: "join ''[REDACTED]'' (js_split s sep)
          = ''[REDACTED]'' @ join ''[REDACTED]'' (js_split ?rest sep)"
        using Cons masked_match [of sep c cs "''[REDACTED]''"] by simp
      have "length ?rest < length s" using ne Cons by simp
      then have "\<not> sublist sep (join ''[REDACTED]'' (js_split ?rest sep))"
        using less.hyps by blast
      then show ?thesis
        unfolding m using sublist_after_replacement [OF _ assms] by blast
    next
      case False
      then have m: "join ''[REDACTED]'' (js_split s sep) = c # join ''[REDACTED]'' (js_split cs sep)"
        using Cons masked_step [of sep c cs "''[REDACTED]''"] by simp
      show ?thesis
      proof
        assume "sublist sep (join ''[REDACTED]'' (js_split s sep))"
        then have "prefix sep (join ''[REDACTED]'' (js_split s sep))
            \<or> sublist sep (join ''[REDACTED]'' (js_split cs sep))"
          using m by (simp add: sublist_Cons_right)
        then show False
        proof
          assume "prefix sep (join ''[REDACTED]'' (js_split s sep))"
          then have "prefix sep s" using assms(1) prefix_of_masked by blast
          with False Cons show False by simp
        next
          assume "sublist sep (join ''[REDACTED]'' (js_split cs sep))"
          moreover have "\<not> sublist sep (join ''[REDACTED]'' (js_split cs sep))"
            using less.hyps [of cs] Cons by simp
          ultimately show False by blast
        qed
      qed
    qed
  qed
qed

section \<open>Deleting by address\<close>

text \<open>
  C5. For an item of the \<^verbatim>\<open>redir delete\<close> batch that is no identifier, passes the
  validation and resolves to no record of the snapshot, the action does issue a remote
  call: \<open>redirByFrom\<close> returns the empty object, its \<open>id\<close> is undefined, and
  \<open>deleteRedir\<close> sends a DELETE request for the path that ends in
  \<^verbatim>\<open>/redirection/undefined\<close>. The item is reported only if the provider rejects that
  request.
\<close>

theorem delete_item_unresolved_requests_undefined:
  assumes "Number_toString item \<noteq> item"
    and "validateCliArg item ''localOrEmail'' = Inr sanitized"
    and "redirByFrom domain (cache st) sanitized = Inr EmptyObject"
  shows "\<exists>outcome st'. delete_item Number_toString ovh domain item st = (outcome, st')
           \<and> trace st' = trace st
                @ [Request DELETE (''/email/domain/'' @ domain @ ''/redirection/undefined'')]"
proof -
  obtain answer w' where a: "ovh (world st) DELETE (redirection_id_path domain ''undefined'')
      = (answer, w')"
    by (cases "ovh (world st) DELETE (redirection_id_path domain ''undefined'')")
  show ?thesis
    using assms a
    by (cases answer)
       (simp_all add: delete_item_def ovhRequest_def redirection_id_path_def)
qed

lemmas delete_defs = redir_delete_def delete_item_def validateCliArg_def trim_def
  matches_id_def matches_local_def matches_email_def is_space_def is_digit_def plain_def
  redirByFrom_def from_matches_def message_def

theorem delete_item_unresolved_requests_undefined_witness:
  "trace (redir_delete (\<lambda>item. ''NaN'') collate (provider ''x.com'') ''x.com'' [''a'', ''ghost'']
     (process_state [redirection_of 1 ''a@x.com'' ''b@y.org'', redirection_of 2 ''b@x.com'' ''b@y.org'']
        [''x.com'' \<mapsto> \<lparr>redirections =
           [redirection_of 1 ''a@x.com'' ''b@y.org'', redirection_of 2 ''b@x.com'' ''b@y.org'']\<rparr>]))
   = [Request DELETE ''/email/domain/x.com/redirection/1'',
      Request DELETE ''/email/domain/x.com/redirection/undefined'',
      ConsoleError (''Failed to delete '' @ [CHR 0x22] @ ''ghost'' @ [CHR 0x22]
                    @ '': This service does not exist''),
      Request GET ''/email/domain/x.com/redirection'',
      ConsoleLog ''2 remote redirection(s)'',
      ConsoleLog ''0 new redirection(s)'',
      ConsoleLog ''1 deleted redirection(s)'',
      WriteFile]"
  using delete_item_unresolved_requests_undefined
    [of "\<lambda>item. ''NaN''" "''ghost''" "''ghost''" "''x.com''"
        "process_state [redirection_of 2 ''b@x.com'' ''b@y.org'']
           [''x.com'' \<mapsto> \<lparr>redirections =
              [redirection_of 1 ''a@x.com'' ''b@y.org'', redirection_of 2 ''b@x.com'' ''b@y.org'']\<rparr>]"
        "provider ''x.com''"]
  by (simp add: delete_defs run_defs)

section \<open>What the error handlers print\<close>

lemma set_variables_iff: "s \<in> set (set_variables vs) \<longleftrightarrow> Some s \<in> set vs \<and> s \<noteq> []"
  by (induction vs rule: set_variables.induct) auto

lemma mask_each_has_no_secret:
  assumes "CHR ''['' \<notin> set s" "CHR '']'' \<notin> set s" "\<not> sublist s ''REDACTED''"
    and "4 < length s"
  shows "s \<in> set secrets \<or> \<not> sublist s str \<Longrightarrow>
         mask_each (Some str) secrets = Inr (Some out) \<Longrightarrow> \<not> sublist s out"
proof (induction secrets arbitrary: str)
  case Nil
  then show ?case by simp
next
  case (Cons x xs)
  show ?case
  proof (cases "4 < length x")
    case True
    let ?str1 = "join ''[REDACTED]'' (js_split str x)"
    from True Cons.prems(2) have run: "mask_each (Some ?str1) xs = Inr (Some out)" by simp
    have "s \<in> set xs \<or> \<not> sublist s ?str1"
    proof (cases "s = x")
      case True
      then show ?thesis using masked_has_no_secret [OF assms(1-3)] by simp
    next
      case False
      with Cons.prems(1) have "s \<in> set xs \<or> \<not> sublist s str" by simp
      then show ?thesis using sublist_of_masked [OF assms(1-3)] by blast
    qed
    then show ?thesis using run by (rule Cons.IH)
  next
    case False
    with assms(4) have "s \<noteq> x" by auto
    with Cons.prems(1) have "s \<in> set xs \<or> \<not> sublist s str" by simp
    moreover from False Cons.prems(2) have "mask_each (Some str) xs = Inr (Some out)" by simp
    ultimately show ?thesis by (rule Cons.IH)
  qed
qed

lemma mask_each_undefined_throws:
  "s \<in> set secrets \<Longrightarrow> 4 < length s \<Longrightarrow> mask_each None secrets \<noteq> Inr detail"
  by (induction secrets) auto

lemma mask_each_string:
  "mask_each (Some str) secrets = Inr detail \<Longrightarrow> \<exists>out. detail = Some out"
  by (induction secrets arbitrary: str) (auto split: if_splits)

lemma maskSecretsInLog_masks_long_secrets:
  assumes "Some s \<in> set [APP_KEY e, APP_SECRET e, CONSUMER_KEY e, DEFAULT_TO e]"
    and "4 < length s"
    and "CHR ''['' \<notin> set s" and "CHR '']'' \<notin> set s" and "\<not> sublist s ''REDACTED''"
    and "maskSecretsInLog e stringify input = Inr detail"
  shows "\<exists>out. detail = Some out \<and> \<not> sublist s out"
proof -
  let ?secrets = "set_variables [APP_KEY e, APP_SECRET e, CONSUMER_KEY e, DEFAULT_TO e]"
  have "s \<noteq> []" using assms(2) by auto
  with assms(1) have mem: "s \<in> set ?secrets"
    by (simp only: set_variables_iff) simp
  obtain str where str: "mask_each str ?secrets = Inr detail"
      "str = (case input of Text t \<Rightarrow> Some t | Value v \<Rightarrow> stringify v)"
    using assms(6) by (simp add: maskSecretsInLog_def Let_def)
  show ?thesis
  proof (cases str)
    case None
    with str(1) mask_each_undefined_throws [OF mem assms(2)] show ?thesis by simp
  next
    case (Some t)
    with str(1) obtain out where out: "detail = Some out"
      using mask_each_string by blast
    with Some str(1) have "\<not> sublist s out"
      using mask_each_has_no_secret [OF assms(3-5) assms(2), of ?secrets t out] mem by simp
    with out show ?thesis by simp
  qed
qed

lemma labelled_detail_has_no_secret:
  assumes "CHR '' '' \<notin> set s" "\<not> sublist s label" "\<not> sublist s out"
  shows "\<not> sublist s (label @ '' '' @ out)"
proof
  assume "sublist s (label @ '' '' @ out)"
  then have "sublist s (label @ CHR '' '' # out)" by simp
  then have "sublist s label \<or> sublist s out"
    using assms(1) by (rule sublist_around_absent)
  with assms(2,3) show False by blast
qed

lemma unhandledRejection_prints:
  assumes masked: "\<And>detail. maskSecretsInLog e stringify input = Inr detail
                     \<Longrightarrow> \<exists>out. detail = Some out \<and> \<not> sublist s out"
    and space: "CHR '' '' \<notin> set s"
    and fixed: "\<forall>t\<in>set handler_texts. \<not> sublist s t"
  shows "\<exists>new. trace (snd (unhandledRejection e stringify input st)) = trace st @ new
               \<and> (\<forall>ev\<in>set new. \<exists>text. ev = ConsoleError text \<and> \<not> sublist s text)"
proof -
  let ?generic = "CHR 0x0A # ''An error occurred. Please try again later.''"
  let ?label = "''[DEBUG] Technical detail (unhandledRejection):''"
  have g: "\<not> sublist s ?generic" and l: "\<not> sublist s ?label"
    using fixed by (simp_all add: handler_texts_def)
  show ?thesis
  proof (cases "NODE_ENV e = Some ''development''")
    case False
    then have "trace (snd (unhandledRejection e stringify input st))
                 = trace st @ [ConsoleError ?generic]"
      by (simp add: unhandledRejection_def Let_def)
    with g show ?thesis by auto
  next
    case True
    show ?thesis
    proof (cases "maskSecretsInLog e stringify input")
      case (Inl err)
      with True have "trace (snd (unhandledRejection e stringify input st))
                 = trace st @ [ConsoleError ?generic]"
        by (simp add: unhandledRejection_def Let_def)
      with g show ?thesis by auto
    next
      case (Inr detail)
      from masked [OF Inr] obtain out where out: "detail = Some out" "\<not> sublist s out"
        by blast
      have "\<not> sublist s (?label @ '' '' @ out)"
        using space l out(2) by (rule labelled_detail_has_no_secret)
      moreover from True Inr out(1)
      have "trace (snd (unhandledRejection e stringify input st))
                 = trace st @ [ConsoleError ?generic, ConsoleError (?label @ '' '' @ out)]"
        by (simp add: unhandledRejection_def Let_def)
      ultimately show ?thesis using g by auto
    qed
  qed
qed

lemma uncaughtException_prints:
  assumes masked: "\<And>detail. maskSecretsInLog e stringify input = Inr detail
                     \<Longrightarrow> \<exists>out. detail = Some out \<and> \<not> sublist s out"
    and space: "CHR '' '' \<notin> set s"
    and fixed: "\<forall>t\<in>set handler_texts. \<not> sublist s t"
  shows "\<exists>new. trace (snd (uncaughtException e stringify input st)) = trace st @ new
               \<and> (\<forall>ev\<in>set new. \<exists>text. ev = ConsoleError text \<and> \<not> sublist s text)"
proof -
  let ?generic = "CHR 0x0A # ''A critical error occurred. Please try again later.''"
  let ?label = "''[DEBUG] Technical detail (uncaughtException):''"
  have g: "\<not> sublist s ?generic" and l: "\<not> sublist s ?label"
    using fixed by (simp_all add: handler_texts_def)
  show ?thesis
  proof (cases "NODE_ENV e = Some ''development''")
    case False
    then have "trace (snd (uncaughtException e stringify input st))
                 = trace st @ [ConsoleError ?generic]"
      by (simp add: uncaughtException_def Let_def)
    with g show ?thesis by auto
  next
    case True
    show ?thesis
    proof (cases "maskSecretsInLog e stringify input")
      case (Inl err)
      with True have "trace (snd (uncaughtException e stringify input st))
                 = trace st @ [ConsoleError ?generic]"
        by (simp add: uncaughtException_def Let_def)
      with g show ?thesis by auto
    next
      case (Inr detail)
      from masked [OF Inr] obtain out where out: "detail = Some out" "\<not> sublist s out"
        by blast
      have "\<not> sublist s (?label @ '' '' @ out)"
        using space l out(2) by (rule labelled_detail_has_no_secret)
      moreover from True Inr out(1)
      have "trace (snd (uncaughtException e stringify input st))
                 = trace st @ [ConsoleError ?generic, ConsoleError (?label @ '' '' @ out)]"
        by (simp add: uncaughtException_def Let_def)
      ultimately show ?thesis using g by auto
    qed
  qed
qed

text \<open>
  C9 (amended). Take a configured secret (\<open>APP_KEY\<close>, \<open>APP_SECRET\<close>,
  \<open>CONSUMER_KEY\<close>, \<open>DEFAULT_TO\<close>) that is longer than four characters, contains no
  space and no square bracket, and occurs neither in the word \<^verbatim>\<open>REDACTED\<close> nor in the
  fixed texts of the handlers. Then for every error value and every \<open>NODE_ENV\<close>, no
  text that the \<open>unhandledRejection\<close> and \<open>uncaughtException\<close> handlers print
  contains the secret, and no string that \<open>maskSecretsInLog\<close> returns contains it.
\<close>

theorem error_handlers_print_no_long_secret:
  assumes "Some s \<in> set [APP_KEY e, APP_SECRET e, CONSUMER_KEY e, DEFAULT_TO e]"
    and "4 < length s"
    and "CHR ''['' \<notin> set s" and "CHR '']'' \<notin> set s" and "\<not> sublist s ''REDACTED''"
    and "CHR '' '' \<notin> set s"
    and "\<forall>t\<in>set handler_texts. \<not> sublist s t"
  shows "(\<forall>out. maskSecretsInLog e stringify input = Inr (Some out) \<longrightarrow> \<not> sublist s out)
       \<and> (\<exists>new. trace (snd (unhandledRejection e stringify input st)) = trace st @ new
               \<and> (\<forall>ev\<in>set new. \<exists>text. ev = ConsoleError text \<and> \<not> sublist s text))
       \<and> (\<exists>new. trace (snd (uncaughtException e stringify input st)) = trace st @ new
               \<and> (\<forall>ev\<in>set new. \<exists>text. ev = ConsoleError text \<and> \<not> sublist s text))"
proof -
  have masked: "\<exists>out. detail = Some out \<and> \<not> sublist s out"
    if "maskSecretsInLog e stringify input = Inr detail" for detail
    using assms(1-5) that by (rule maskSecretsInLog_masks_long_secrets)
  then have "\<forall>out. maskSecretsInLog e stringify input = Inr (Some out) \<longrightarrow> \<not> sublist s out"
    by blast
  moreover note unhandledRejection_prints [of e stringify input s st, OF masked assms(6,7)]
  moreover note uncaughtException_prints [of e stringify input s st, OF masked assms(6,7)]
  ultimately show ?thesis by blast
qed

lemmas mask_defs = maskSecretsInLog_def unhandledRejection_def uncaughtException_def
  js_split_def process_state_def emit_def Let_def

theorem error_handlers_print_no_long_secret_witness:
  "maskSecretsInLog
     \<lparr>APP_KEY = Some ''abcd'', APP_SECRET = Some ''s3cr3tvalue'', CONSUMER_KEY = None,
      DEFAULT_TO = Some '''', NODE_ENV = Some ''development''\<rparr>
     (\<lambda>v::unit. None) (Text ''key=abcd secret=s3cr3tvalue!'')
     = Inr (Some ''key=abcd secret=[REDACTED]!'')
   \<and> trace (snd (unhandledRejection
       \<lparr>APP_KEY = Some ''abcd'', APP_SECRET = Some ''s3cr3tvalue'', CONSUMER_KEY = None,
        DEFAULT_TO = Some '''', NODE_ENV = Some ''development''\<rparr>
       (\<lambda>v::unit. None) (Text ''key=abcd secret=s3cr3tvalue!'') (process_state () ())))
     = [ConsoleError (CHR 0x0A # ''An error occurred. Please try again later.''),
        ConsoleError ''[DEBUG] Technical detail (unhandledRejection): key=abcd secret=[REDACTED]!'']
   \<and> trace (snd (uncaughtException
       \<lparr>APP_KEY = Some ''abcd'', APP_SECRET = Some ''s3cr3tvalue'', CONSUMER_KEY = None,
        DEFAULT_TO = Some '''', NODE_ENV = Some ''development''\<rparr>
       (\<lambda>v::unit. None) (Text ''key=abcd secret=s3cr3tvalue!'') (process_state () ())))
     = [ConsoleError (CHR 0x0A # ''A critical error occurred. Please try again later.''),
        ConsoleError ''[DEBUG] Technical detail (uncaughtException): key=abcd secret=[REDACTED]!'']"
  using error_handlers_print_no_long_secret
    [of "''s3cr3tvalue''"
        "\<lparr>APP_KEY = Some ''abcd'', APP_SECRET = Some ''s3cr3tvalue'', CONSUMER_KEY = None,
          DEFAULT_TO = Some '''', NODE_ENV = Some ''development''\<rparr>"
        "\<lambda>v::unit. None" "Text ''key=abcd secret=s3cr3tvalue!''" "process_state () ()"]
  by (simp add: mask_defs)

text \<open>
  C9 as stated fails. In development mode a handler prints a secret of four characters,
  which the guard \<^verbatim>\<open>secret.length > 4\<close> leaves in place. The secret
  \<^verbatim>\<open>REDACTED\<close> is replaced by a text that contains it, and the secret \<^verbatim>\<open>ED]ab\<close>
  reappears across the end of the replacement. The secret \<^verbatim>\<open>error\<close> occurs in the
  fixed message of a handler, and a secret with a space can span the label and the
  detail. The catch block of \<^verbatim>\<open>redir delete\<close> prints the message of a rejected
  request as it is, with a secret in it.
\<close>

theorem error_paths_leak:
  "trace (snd (unhandledRejection
       \<lparr>APP_KEY = Some ''abcd'', APP_SECRET = None, CONSUMER_KEY = None, DEFAULT_TO = None,
        NODE_ENV = Some ''development''\<rparr>
       (\<lambda>v::unit. None) (Text ''key=abcd'') (process_state () ())))
     = [ConsoleError (CHR 0x0A # ''An error occurred. Please try again later.''),
        ConsoleError ''[DEBUG] Technical detail (unhandledRejection): key=abcd'']
   \<and> maskSecretsInLog
       \<lparr>APP_KEY = Some ''REDACTED'', APP_SECRET = None, CONSUMER_KEY = None, DEFAULT_TO = None,
        NODE_ENV = None\<rparr> (\<lambda>v::unit. None) (Text ''token REDACTED'')
     = Inr (Some ''token [REDACTED]'')
   \<and> maskSecretsInLog
       \<lparr>APP_KEY = Some ''ED]ab'', APP_SECRET = None, CONSUMER_KEY = None, DEFAULT_TO = None,
        NODE_ENV = None\<rparr> (\<lambda>v::unit. None) (Text ''ED]abab'')
     = Inr (Some ''[REDACTED]ab'')
   \<and> trace (snd (unhandledRejection
       \<lparr>APP_KEY = Some ''error'', APP_SECRET = None, CONSUMER_KEY = None, DEFAULT_TO = None,
        NODE_ENV = None\<rparr>
       (\<lambda>v::unit. None) (Text ''timeout'') (process_state () ())))
     = [ConsoleError (CHR 0x0A # ''An error occurred. Please try again later.'')]
   \<and> trace (snd (unhandledRejection
       \<lparr>APP_KEY = Some ''n): tok'', APP_SECRET = None, CONSUMER_KEY = None, DEFAULT_TO = None,
        NODE_ENV = Some ''development''\<rparr>
       (\<lambda>v::unit. None) (Text ''tok'') (process_state () ())))
     = [ConsoleError (CHR 0x0A # ''An error occurred. Please try again later.''),
        ConsoleError ''[DEBUG] Technical detail (unhandledRejection): tok'']
   \<and> trace (redir_delete (\<lambda>item. ''NaN'') collate
       (\<lambda>w m path. (Inl (ApiError ''Invalid consumer key s3cr3tvalue''), w)) ''x.com'' [''a'']
       (process_state () [''x.com'' \<mapsto> \<lparr>redirections = [redirection_of 1 ''a@x.com'' ''b@y.org'']\<rparr>]))
     = [Request DELETE ''/email/domain/x.com/redirection/1'',
        ConsoleError (''Failed to delete '' @ [CHR 0x22] @ ''a'' @ [CHR 0x22]
                      @ '': Invalid consumer key s3cr3tvalue''),
        Request GET ''/email/domain/x.com/redirection'',
        ConsoleError ''Unexpected error: Invalid consumer key s3cr3tvalue'']"
  by (simp add: mask_defs delete_defs run_defs)

end
